(* ===== verification/Prelude.thy ===== *)
theory Prelude
  imports Main "HOL-Library.Word"
begin

text \<open>
  Shared vocabulary of the development: the integer aliases of \<open>src/src/std_comp.hh\<close>, the
  result type that makes undefined behaviour of the C++ code a value of the model, the
  \<open>size_t\<close> subtraction that the container code relies on, little- and big-endian byte
  splitting, and the collections of facts the component theories share.
\<close>

section \<open>Integer aliases\<close>

text \<open>
  The signed aliases share the representation of the unsigned ones: a value is a bit pattern,
  and \<^term>\<open>sint\<close> reads it as two's complement where the code does signed arithmetic.
\<close>

type_synonym u8 = "8 word"
type_synonym u16 = "16 word"
type_synonym u32 = "32 word"
type_synonym u64 = "64 word"
type_synonym i32 = "32 word"
type_synonym i64 = "64 word"

named_theorems wf_intros \<open>preservation facts of the components' well-formedness predicates\<close>
named_theorems model_defs \<open>non-recursive definitions that proofs unfold together\<close>

section \<open>Undefined behaviour as a value\<close>

text \<open>
  \<open>Ok x\<close> is a normal return. \<open>Undef\<close> stands for undefined behaviour (an out-of-range
  vector access, a stdio call on a null stream): nothing is promised after it, so every theorem
  that needs a result says that the result is an \<open>Ok\<close>.
\<close>

datatype 'a res = Ok 'a | Undef

fun res_bind :: "'a res \<Rightarrow> ('a \<Rightarrow> 'b res) \<Rightarrow> 'b res" where
  "res_bind (Ok x) f = f x"
| "res_bind Undef f = Undef"

fun res_map :: "('a \<Rightarrow> 'b) \<Rightarrow> 'a res \<Rightarrow> 'b res" where
  "res_map f (Ok x) = Ok (f x)"
| "res_map f Undef = Undef"

lemma res_bind_Ok_iff [simp]: "res_bind r f = Ok y \<longleftrightarrow> (\<exists>x. r = Ok x \<and> f x = Ok y)"
  by (cases r) auto

lemma res_map_Ok_iff [simp]: "res_map f r = Ok y \<longleftrightarrow> (\<exists>x. r = Ok x \<and> y = f x)"
  by (cases r) auto

section \<open>Unsigned size arithmetic\<close>

text \<open>
  \<open>size_t\<close> is 64 bits wide and \<open>v.size () - 1\<close> wraps to \<open>2 ^ 64 - 1\<close> on
  an empty container.
\<close>

definition size_t_sub :: "nat \<Rightarrow> nat \<Rightarrow> nat" where
  "size_t_sub a b = (a + (2 ^ 64 - b mod 2 ^ 64)) mod 2 ^ 64"

lemma size_t_sub_eq: "b \<le> a \<Longrightarrow> a < 2 ^ 64 \<Longrightarrow> size_t_sub a b = a - b"
proof -
  assume le: "b \<le> a" and lt: "a < 2 ^ 64"
  then have "a + (2 ^ 64 - b mod 2 ^ 64) = (a - b) + 2 ^ 64" by simp
  then show ?thesis using lt by (simp add: size_t_sub_def)
qed

lemma size_t_sub_zero [simp]: "size_t_sub 0 (Suc 0) = 18446744073709551615"
  by (simp add: size_t_sub_def)

section \<open>Bytes and words\<close>

definition byte_of_char :: "char \<Rightarrow> u8" where
  "byte_of_char c = of_char c"

definition char_of_byte :: "u8 \<Rightarrow> char" where
  "char_of_byte b = char_of (unat b)"

lemma byte_of_char_of_byte [simp]: "byte_of_char (char_of_byte b) = b"
proof -
  have "(of_char (char_of (unat b)) :: u8) = word_of_nat (of_char (char_of (unat b)))"
    by (simp add: of_char_def)
  also have "\<dots> = word_of_nat (unat b mod 256)" by simp
  also have "unat b mod 256 = unat b"
    using unsigned_less [where w = b and 'a = nat] by simp
  finally show ?thesis by (simp add: byte_of_char_def char_of_byte_def)
qed

section \<open>Sequences of operations that cannot fail\<close>

text \<open>
  A state with a well-formedness predicate and a size that each operation grows by at most one:
  below the limit every operation returns and keeps the state well-formed, so a sequence of
  operations does too.
\<close>

fun run_ops :: "('c \<Rightarrow> 's \<Rightarrow> 's res) \<Rightarrow> 'c list \<Rightarrow> 's \<Rightarrow> 's res" where
  "run_ops f [] s = Ok s"
| "run_ops f (c # cs) s = res_bind (f c s) (run_ops f cs)"

locale measured_ops =
  fixes inv :: "'s \<Rightarrow> bool"
    and sz :: "'s \<Rightarrow> nat"
    and lim :: nat
    and oper :: "'c \<Rightarrow> 's \<Rightarrow> 's res"
  assumes oper_ok: "inv s \<Longrightarrow> sz s < lim \<Longrightarrow> \<exists>s'. oper c s = Ok s' \<and> inv s' \<and> sz s' \<le> Suc (sz s)"
begin

lemma run_ok:
  "inv s \<Longrightarrow> sz s + length cs \<le> lim \<Longrightarrow> \<exists>s'. run_ops oper cs s = Ok s' \<and> inv s'"
proof (induction cs arbitrary: s)
  case (Cons c cs)
  then have "sz s < lim" by simp
  with oper_ok [OF Cons.prems(1), of c] obtain s' where
    s': "oper c s = Ok s'" "inv s'" "sz s' \<le> Suc (sz s)" by blast
  with Cons.prems(2) have "sz s' + length cs \<le> lim" by simp
  with Cons.IH [OF s'(2)] s'(1) show ?case by simp
qed simp

end

end
