(* ===== verification/Strops.thy ===== *)
theory Strops
  imports Prelude "HOL-Library.Sublist"
begin

text \<open>
  The operations of \<open>std::string\<close> and of the C library that the source uses, on
  strings as lists of bytes: \<open>find\<close>, \<open>find_first_of\<close>,
  \<open>find_first_not_of\<close>, \<open>substr\<close>, \<open>erase\<close>, \<open>c_str\<close>, \<open>atoi\<close>,
  \<open>strtol\<close> and decimal printing. \<open>None\<close> is \<open>std::string::npos\<close>.
\<close>

section \<open>Searching\<close>

fun find_idx :: "('a \<Rightarrow> bool) \<Rightarrow> 'a list \<Rightarrow> nat option" where
  "find_idx P [] = None"
| "find_idx P (x # xs) = (if P x then Some 0 else map_option Suc (find_idx P xs))"

fun str_find :: "string \<Rightarrow> string \<Rightarrow> nat option" where
  "str_find pat [] = (if pat = [] then Some 0 else None)"
| "str_find pat (c # cs) =
     (if prefix pat (c # cs) then Some 0 else map_option Suc (str_find pat cs))"

definition str_contains :: "string \<Rightarrow> string \<Rightarrow> bool" where
  "str_contains pat s = (str_find pat s \<noteq> None)"

definition find_first_of :: "char list \<Rightarrow> string \<Rightarrow> nat \<Rightarrow> nat option" where
  "find_first_of cs s pos = map_option ((+) pos) (find_idx (\<lambda>c. c \<in> set cs) (drop pos s))"

definition find_first_not_of :: "char list \<Rightarrow> string \<Rightarrow> nat \<Rightarrow> nat option" where
  "find_first_not_of cs s pos = map_option ((+) pos) (find_idx (\<lambda>c. c \<notin> set cs) (drop pos s))"

text \<open>
  \<open>s.substr (begi, endi - begi)\<close>. With \<open>endi = npos\<close> the count is at least the
  length of the rest, so the rest is taken whole.
\<close>

definition substr_between :: "string \<Rightarrow> nat \<Rightarrow> nat option \<Rightarrow> string" where
  "substr_between s b e = (case e of None \<Rightarrow> drop b s | Some i \<Rightarrow> take (i - b) (drop b s))"

text \<open>\<open>s.erase (0, n)\<close>: with \<open>n = npos\<close> everything goes.\<close>

definition erase_front :: "string \<Rightarrow> nat option \<Rightarrow> string" where
  "erase_front s n = (case n of None \<Rightarrow> [] | Some k \<Rightarrow> drop k s)"

text \<open>What a C function sees of a string: the bytes before the first NUL.\<close>

definition c_str :: "string \<Rightarrow> string" where
  "c_str s = takeWhile (\<lambda>c. c \<noteq> CHR 0x00) s"

lemma find_idx_None_iff: "find_idx P xs = None \<longleftrightarrow> (\<forall>x \<in> set xs. \<not> P x)"
  by (induction xs) auto

lemma find_idx_SomeD:
  "find_idx P xs = Some i \<Longrightarrow> i < length xs \<and> P (xs ! i) \<and> (\<forall>j < i. \<not> P (xs ! j))"
proof (induction xs arbitrary: i)
  case (Cons x xs)
  then show ?case by (cases i) (auto simp: less_Suc_eq_0_disj split: if_splits)
qed simp

lemma find_idx_append:
  "(\<forall>x \<in> set xs. \<not> P x) \<Longrightarrow>
     find_idx P (xs @ ys) = map_option ((+) (length xs)) (find_idx P ys)"
proof (induction xs)
  case Nil
  then show ?case by (cases "find_idx P ys") auto
next
  case (Cons x xs)
  then show ?case by (cases "find_idx P ys") auto
qed

lemma drop_find_idx_dropWhile:
  "(case find_idx P xs of None \<Rightarrow> [] | Some k \<Rightarrow> drop k xs) = dropWhile (\<lambda>x. \<not> P x) xs"
  by (induction xs) (auto split: option.splits)

lemma erase_leading:
  "erase_front s (find_first_not_of cs s 0) = dropWhile (\<lambda>c. c \<in> set cs) s"
  using drop_find_idx_dropWhile [where P = "\<lambda>c. c \<notin> set cs" and xs = s]
  by (cases "find_idx (\<lambda>c. c \<notin> set cs) s") (auto simp: erase_front_def find_first_not_of_def)

lemma str_find_SomeD:
  "str_find pat s = Some i \<Longrightarrow> i \<le> length s \<and> prefix pat (drop i s) \<and> (\<forall>j < i. \<not> prefix pat (drop j s))"
proof (induction s arbitrary: i)
  case (Cons c cs)
  then show ?case by (cases i) (auto simp: less_Suc_eq_0_disj split: if_splits)
qed (auto split: if_splits)

lemma str_find_zero_iff: "str_find pat s = Some 0 \<longleftrightarrow> prefix pat s"
  by (cases s) auto

lemma prefix_take_iff: "prefix p s \<longleftrightarrow> take (length p) s = p"
  by (metis append_eq_conv_conj append_take_drop_id prefix_def)

lemma str_contains_iff: "str_contains pat s \<longleftrightarrow> sublist pat s"
proof (induction s)
  case (Cons c cs)
  then show ?case
    by (auto simp: str_contains_def sublist_Cons_right)
qed (auto simp: str_contains_def)

lemma str_contains_append1: "str_contains pat s \<Longrightarrow> str_contains pat (s @ t)"
  by (simp add: str_contains_iff sublist_append)

lemma str_contains_append2: "str_contains pat t \<Longrightarrow> str_contains pat (s @ t)"
  by (simp add: str_contains_iff sublist_append)

lemma c_str_id [simp]: "CHR 0x00 \<notin> set s \<Longrightarrow> c_str s = s"
  by (auto simp: c_str_def takeWhile_eq_all_conv)

section \<open>Numbers\<close>

definition is_space :: "char \<Rightarrow> bool" where
  "is_space c = (c \<in> {CHR 0x20, CHR 0x09, CHR 0x0A, CHR 0x0B, CHR 0x0C, CHR 0x0D})"

definition is_digit :: "char \<Rightarrow> bool" where
  "is_digit c = (48 \<le> (of_char c :: nat) \<and> (of_char c :: nat) \<le> 57)"

definition digit_of :: "char \<Rightarrow> nat" where
  "digit_of c = of_char c - 48"

definition char_of_digit :: "nat \<Rightarrow> char" where
  "char_of_digit d = ''0123456789'' ! d"

fun digits_val :: "string \<Rightarrow> nat \<Rightarrow> nat" where
  "digits_val [] acc = acc"
| "digits_val (c # cs) acc =
     (if is_digit c then digits_val cs (10 * acc + digit_of c) else acc)"

definition clamp_long :: "int \<Rightarrow> int" where
  "clamp_long i = max (- (2 ^ 63)) (min (2 ^ 63 - 1) i)"

text \<open>\<open>strtol (s, nullptr, 10)\<close> on a 64-bit \<open>long\<close>, which saturates.\<close>

definition strtol10 :: "string \<Rightarrow> int" where
  "strtol10 s =
     (case dropWhile is_space s of
        [] \<Rightarrow> 0
      | c # cs \<Rightarrow>
          (if c = CHR ''-'' then clamp_long (- int (digits_val cs 0))
           else if c = CHR ''+'' then clamp_long (int (digits_val cs 0))
           else clamp_long (int (digits_val (c # cs) 0))))"

text \<open>\<open>atoi\<close>, which the C library defines as the conversion of \<open>strtol\<close> to \<open>int\<close>.\<close>

definition atoi :: "string \<Rightarrow> i32" where
  "atoi s = word_of_int (strtol10 s)"

fun show_nat :: "nat \<Rightarrow> string" where
  "show_nat n =
     (if n < 10 then [char_of_digit n] else show_nat (n div 10) @ [char_of_digit (n mod 10)])"

declare show_nat.simps [simp del]

definition show_int :: "int \<Rightarrow> string" where
  "show_int i = (if i < 0 then CHR ''-'' # show_nat (nat (- i)) else show_nat (nat i))"

lemma digit_char_facts [simp]:
  assumes "d < 10"
  shows "is_digit (char_of_digit d)" and "digit_of (char_of_digit d) = d"
    and "\<not> is_space (char_of_digit d)"
    and "char_of_digit d \<noteq> CHR ''-''" and "char_of_digit d \<noteq> CHR ''+''"
proof -
  have "d \<in> {0, 1, 2, 3, 4, 5, 6, 7, 8, 9}" using assms by auto
  then show "is_digit (char_of_digit d)" and "digit_of (char_of_digit d) = d"
    and "\<not> is_space (char_of_digit d)"
    and "char_of_digit d \<noteq> CHR ''-''" and "char_of_digit d \<noteq> CHR ''+''"
    by (auto simp: is_digit_def digit_of_def char_of_digit_def is_space_def)
qed

lemma digits_val_snoc:
  "list_all is_digit ds \<Longrightarrow> is_digit c \<Longrightarrow>
     digits_val (ds @ [c]) acc = 10 * digits_val ds acc + digit_of c"
  by (induction ds arbitrary: acc) auto

lemma show_nat_digits: "list_all is_digit (show_nat n)"
proof (induction n rule: show_nat.induct)
  case (1 n)
  then show ?case by (subst show_nat.simps) auto
qed

lemma digits_val_show_nat: "digits_val (show_nat n) 0 = n"
proof (induction n rule: show_nat.induct)
  case (1 n)
  then show ?case
    by (subst show_nat.simps) (auto simp: digits_val_snoc show_nat_digits)
qed

lemma show_nat_Cons: "\<exists>d cs. d < 10 \<and> show_nat n = char_of_digit d # cs"
proof (induction n rule: show_nat.induct)
  case (1 n)
  show ?case
  proof (cases "n < 10")
    case True
    then show ?thesis by (subst show_nat.simps) auto
  next
    case False
    with 1 obtain d cs where "d < 10" "show_nat (n div 10) = char_of_digit d # cs" by blast
    with False show ?thesis by (subst show_nat.simps) auto
  qed
qed

lemma strtol10_show_int:
  assumes "- (2 ^ 63) \<le> i" and "i < 2 ^ 63"
  shows "strtol10 (show_int i) = i"
proof -
  obtain d cs where d: "d < 10" and s: "show_nat (nat i) = char_of_digit d # cs"
    using show_nat_Cons by blast
  have v: "digits_val (char_of_digit d # cs) 0 = nat i"
    using digits_val_show_nat [of "nat i"] s by simp
  show ?thesis
  proof (cases "i < 0")
    case True
    then show ?thesis using assms
      by (simp add: strtol10_def show_int_def is_space_def digits_val_show_nat clamp_long_def)
  next
    case False
    then show ?thesis using assms d s v
      by (simp add: strtol10_def show_int_def clamp_long_def del: digits_val.simps)
  qed
qed

end
