(* ===== verification/Common.thy ===== *)
theory Common
  imports Strops
begin

text \<open>
  \<open>src/src/common.hh\<close>: white-space trimming, the 32-bit integer check used when an API id is
  typed in, space removal for phone numbers, and \<open>FileReader\<close>, through which every text
  file of the data directory is read.
\<close>

section \<open>Trimming and number checks\<close>

definition ltrim :: "string \<Rightarrow> string" where
  "ltrim s = dropWhile is_space s"

definition rtrim :: "string \<Rightarrow> string" where
  "rtrim s = rev (dropWhile is_space (rev s))"

definition trim :: "string \<Rightarrow> string" where
  "trim s = ltrim (rtrim s)"

definition INT_MIN :: int where
  "INT_MIN = - (2 ^ 31)"

definition INT_MAX :: int where
  "INT_MAX = 2 ^ 31 - 1"

definition is_valid_int32 :: "string \<Rightarrow> bool" where
  "is_valid_int32 s =
     (let as_num = strtol10 (c_str s)
      in if as_num < INT_MIN \<or> as_num > INT_MAX then False
         else if show_int as_num \<noteq> s then False
         else True)"

definition sstr_to_int32 :: "string \<Rightarrow> i32" where
  "sstr_to_int32 s = word_of_int (strtol10 (c_str s))"

definition rmspc :: "string \<Rightarrow> string" where
  "rmspc s = filter (\<lambda>ch. ch \<noteq> CHR 0x20) s"

lemma show_nat_no_nul: "CHR 0x00 \<notin> set (show_nat n)"
  using show_nat_digits [of n] by (auto simp: list_all_iff is_digit_def)

lemma c_str_show_int [simp]: "c_str (show_int i) = show_int i"
  by (rule c_str_id) (simp add: show_int_def show_nat_no_nul)

lemma trim_idem_ends:
  assumes "s \<noteq> []" and "\<not> is_space (hd s)" and "\<not> is_space (last s)"
  shows "trim s = s"
proof -
  from assms have "rtrim s = s"
    by (cases s rule: rev_cases) (auto simp: rtrim_def)
  moreover from assms have "ltrim s = s"
    by (cases s) (auto simp: ltrim_def)
  ultimately show ?thesis by (simp add: trim_def)
qed

text \<open>
  C39: \<open>is_valid_int32\<close> accepts exactly the canonical decimal forms of the 32-bit integers,
  and on those \<open>sstr_to_int32\<close> gives the integer back.
\<close>

theorem is_valid_int32_iff:
  "(is_valid_int32 s \<longleftrightarrow> (\<exists>i. - (2 ^ 31) \<le> i \<and> i < 2 ^ 31 \<and> s = show_int i)) \<and>
   (is_valid_int32 s \<longrightarrow> show_int (sint (sstr_to_int32 s)) = s)"
proof -
  have fwd: "INT_MIN \<le> strtol10 (c_str s) \<and> strtol10 (c_str s) \<le> INT_MAX \<and>
      show_int (strtol10 (c_str s)) = s" if "is_valid_int32 s"
    using that by (simp add: is_valid_int32_def Let_def not_less split: if_splits)
  have bwd: "is_valid_int32 (show_int i)" if "- (2 ^ 31) \<le> i" "i < 2 ^ 31" for i
    using that strtol10_show_int [of i]
    by (simp add: is_valid_int32_def INT_MIN_def INT_MAX_def Let_def)
  have "sint (sstr_to_int32 s) = strtol10 (c_str s)" if "is_valid_int32 s"
    using fwd [OF that]
    by (simp add: sstr_to_int32_def signed_of_int signed_take_bit_int_eq_self INT_MIN_def INT_MAX_def)
  with fwd bwd show ?thesis by (fastforce simp: INT_MIN_def INT_MAX_def)
qed

lemma is_valid_int32_witness:
  "is_valid_int32 ''-2147483648'' \<and> show_int (sint (sstr_to_int32 ''-2147483648'')) = ''-2147483648''"
proof -
  have "show_int (- 2147483648) = ''-2147483648''"
    by (simp add: show_int_def show_nat.simps char_of_digit_def)
  then have "is_valid_int32 ''-2147483648''"
    using is_valid_int32_iff [of "''-2147483648''"] by force
  then show ?thesis using is_valid_int32_iff [of "''-2147483648''"] by blast
qed

section \<open>FileReader\<close>

text \<open>
  A file is its bytes; \<open>None\<close> stands for a path that \<open>fopen\<close> could not open. The
  constructor seeks to the end to learn the size and picks the buffer. \<open>fread\<close> with a buffer
  of \<open>n\<close> bytes sets the end-of-file flag only when it comes up short, so a read is reported
  as good (\<open>feof != 0\<close>) exactly when the file is shorter than the buffer. Reading after a
  failed open calls \<open>fseek\<close> on a null stream.
\<close>

definition MAX_SMALL :: nat where
  "MAX_SMALL = 4096"

definition MAX_LARGE :: nat where
  "MAX_LARGE = 2 ^ 20"

definition has_error :: "string option \<Rightarrow> bool" where
  "has_error f = (f = None)"

definition uses_large_rbuf :: "string \<Rightarrow> bool" where
  "uses_large_rbuf bytes = (length bytes > MAX_SMALL)"

definition fread_whole :: "nat \<Rightarrow> string \<Rightarrow> string option" where
  "fread_whole bufsz bytes =
     (let got = take bufsz bytes; feof = (length bytes < bufsz)
      in if \<not> feof then None else Some got)"

definition read_small_to_string :: "string \<Rightarrow> string option" where
  "read_small_to_string bytes = fread_whole MAX_SMALL bytes"

definition read_large_to_string :: "string \<Rightarrow> string option" where
  "read_large_to_string bytes = fread_whole MAX_LARGE bytes"

definition read_to_string :: "string option \<Rightarrow> string option res" where
  "read_to_string f =
     (case f of
        None \<Rightarrow> Undef
      | Some bytes \<Rightarrow>
          Ok (if uses_large_rbuf bytes then read_large_to_string bytes
              else read_small_to_string bytes))"

text \<open>The object: its stream, null when the file could not be opened, and its large buffer.\<close>

record FileReader =
  fr_has_error :: bool
  fr_fstrm :: "string option"
  fr_large_rbuf :: bool

definition new_FileReader :: "string option \<Rightarrow> FileReader" where
  "new_FileReader f =
     \<lparr>fr_has_error = has_error f, fr_fstrm = f,
      fr_large_rbuf = (case f of None \<Rightarrow> False | Some bytes \<Rightarrow> uses_large_rbuf bytes)\<rparr>"

text \<open>Whether the destructor closes the stream, and whether it frees the buffer.\<close>

definition delete_FileReader :: "FileReader \<Rightarrow> bool \<times> bool" where
  "delete_FileReader r = (fr_fstrm r \<noteq> None, fr_large_rbuf r)"

lemmas file_reader_defs [model_defs] =
  read_to_string_def uses_large_rbuf_def read_small_to_string_def read_large_to_string_def
  fread_whole_def MAX_SMALL_def MAX_LARGE_def

text \<open>What the constructor opened and allocated is given back: the stream when there is one, the buffer
  when the file is a large one.\<close>

lemma file_reader_gives_back:
  "delete_FileReader (new_FileReader f) = (\<not> has_error f, \<exists>bytes. f = Some bytes \<and> length bytes > 4096)"
  by (auto simp: delete_FileReader_def new_FileReader_def has_error_def uses_large_rbuf_def MAX_SMALL_def
      split: option.split)

lemma read_to_string_small: "length bytes < 4096 \<Longrightarrow> read_to_string (Some bytes) = Ok (Some bytes)"
  by (simp add: file_reader_defs)

lemma read_to_string_iff:
  "read_to_string (Some bytes) = Ok (Some s) \<longleftrightarrow>
     s = bytes \<and> length bytes \<noteq> 4096 \<and> length bytes < 1048576"
  by (auto simp: file_reader_defs)

text \<open>
  Reading a file that was opened is total, and it yields the file's bytes, all of them, except
  that a file of exactly 4096 bytes and every file of a mebibyte or more are reported as unreadable.
\<close>

theorem read_to_string_total:
  "read_to_string (Some bytes) =
     Ok (if length bytes = 4096 \<or> length bytes \<ge> 1048576 then None else Some bytes)"
  by (auto simp: file_reader_defs)

end
