(* ===== verification/LocaleConf.thy ===== *)
theory LocaleConf
  imports Strops
begin

text \<open>
  \<open>src/src/locale_conf.hh\<close> and \<open>locale_conf.cc\<close>: the language codes, their names, and
  the choice of a UTF-8 locale. \<open>enum Lang : uint8_t\<close> has a fixed underlying type, so every
  byte is a value of it (\<open>get_pref_lang\<close> casts a byte read from disk); the model is the byte,
  and \<open>lang_enumerators\<close> lists the enumerators in the order that gives them their numbers.
\<close>

section \<open>Language codes\<close>

type_synonym Lang = u8

definition lang_enumerators :: "string list" where
  "lang_enumerators =
    [
     ''unknown'', ''aa_DJ'', ''af_ZA'', ''an_ES'', ''ar_AE'', ''ar_BH'', ''ar_DZ'', ''ar_EG'',
     ''ar_IQ'', ''ar_JO'', ''ar_KW'', ''ar_LB'', ''ar_LY'', ''ar_MA'', ''ar_OM'', ''ar_QA'',
     ''ar_SA'', ''ar_SD'', ''ar_SY'', ''ar_TN'', ''ar_YE'', ''ast_ES'', ''be_BY'', ''bg_BG'',
     ''bhb_IN'', ''br_FR'', ''bs_BA'', ''ca_AD'', ''ca_ES'', ''ca_FR'', ''ca_IT'', ''cs_CZ'',
     ''cy_GB'', ''da_DK'', ''de_AT'', ''de_BE'', ''de_CH'', ''de_DE'', ''de_IT'', ''de_LI'',
     ''de_LU'', ''el_CY'', ''el_GR'', ''en_AU'', ''en_BW'', ''en_CA'', ''en_DK'', ''en_GB'',
     ''en_HK'', ''en_IE'', ''en_NZ'', ''en_PH'', ''en_SC'', ''en_SG'', ''en_US'', ''en_ZA'',
     ''en_ZW'', ''es_AR'', ''es_BO'', ''es_CL'', ''es_CO'', ''es_CR'', ''es_DO'', ''es_EC'',
     ''es_ES'', ''es_GT'', ''es_HN'', ''es_MX'', ''es_NI'', ''es_PA'', ''es_PE'', ''es_PR'',
     ''es_PY'', ''es_SV'', ''es_US'', ''es_UY'', ''es_VE'', ''et_EE'', ''eu_ES'', ''eu_FR'',
     ''fi_FI'', ''fo_FO'', ''fr_BE'', ''fr_CA'', ''fr_CH'', ''fr_FR'', ''fr_LU'', ''ga_IE'',
     ''gd_GB'', ''gl_ES'', ''gv_GB'', ''he_IL'', ''hr_HR'', ''hsb_DE'', ''hu_HU'', ''id_ID'',
     ''is_IS'', ''it_CH'', ''it_IT'', ''ja_JP'', ''ka_GE'', ''kk_KZ'', ''kl_GL'', ''ko_KR'',
     ''ku_TR'', ''kw_GB'', ''lg_UG'', ''lt_LT'', ''lv_LV'', ''mg_MG'', ''mi_NZ'', ''mk_MK'',
     ''ms_MY'', ''mt_MT'', ''nb_NO'', ''nl_BE'', ''nl_NL'', ''nn_NO'', ''oc_FR'', ''om_KE'',
     ''pl_PL'', ''pt_BR'', ''pt_PT'', ''ro_RO'', ''ru_RU'', ''ru_UA'', ''sk_SK'', ''sl_SI'',
     ''so_DJ'', ''so_KE'', ''so_SO'', ''sq_AL'', ''st_ZA'', ''sv_FI'', ''sv_SE'', ''tcy_IN'',
     ''tg_TJ'', ''th_TH'', ''tl_PH'', ''tr_CY'', ''tr_TR'', ''uk_UA'', ''uz_UZ'', ''wa_BE'',
     ''xh_ZA'', ''yi_US'', ''zh_CN'', ''zh_HK'', ''zh_SG'', ''zh_TW'', ''zu_ZA'']"

definition lang_unknown :: Lang where
  "lang_unknown = 0"

definition en_AU :: Lang where
  "en_AU = 43"

definition en_GB :: Lang where
  "en_GB = 47"

definition en_HK :: Lang where
  "en_HK = 48"

definition en_US :: Lang where
  "en_US = 54"

definition en_ZW :: Lang where
  "en_ZW = 56"

definition zh_CN :: Lang where
  "zh_CN = 146"

definition zh_HK :: Lang where
  "zh_HK = 147"

lemma lang_consts_named:
  "lang_enumerators ! unat lang_unknown = ''unknown'' \<and>
   lang_enumerators ! unat en_AU = ''en_AU'' \<and>
   lang_enumerators ! unat en_GB = ''en_GB'' \<and>
   lang_enumerators ! unat en_HK = ''en_HK'' \<and>
   lang_enumerators ! unat en_US = ''en_US'' \<and>
   lang_enumerators ! unat en_ZW = ''en_ZW'' \<and>
   lang_enumerators ! unat zh_CN = ''zh_CN'' \<and>
   lang_enumerators ! unat zh_HK = ''zh_HK''"
  by (simp add: lang_enumerators_def lang_unknown_def en_AU_def en_GB_def en_HK_def en_US_def en_ZW_def zh_CN_def zh_HK_def)

lemmas lang_defs [model_defs] =
  lang_unknown_def en_AU_def en_GB_def en_HK_def en_US_def en_ZW_def zh_CN_def zh_HK_def

definition STRNAME_unknown :: string where
  "STRNAME_unknown = ''?-?''"

definition STRNAME_en_HK :: string where
  "STRNAME_en_HK = ''en-HK''"

definition STRNAME_en_US :: string where
  "STRNAME_en_US = ''en-US''"

definition STRNAME_en_ZW :: string where
  "STRNAME_en_ZW = ''en-ZW''"

definition STRNAME_zh_CN :: string where
  "STRNAME_zh_CN = ''zh-CN''"

definition STRNAME_zh_HK :: string where
  "STRNAME_zh_HK = ''zh-HK''"

lemmas strname_defs [model_defs] =
  STRNAME_unknown_def STRNAME_en_HK_def STRNAME_en_US_def STRNAME_en_ZW_def STRNAME_zh_CN_def
  STRNAME_zh_HK_def

text \<open>The argument is a C string, so it holds no NUL.\<close>

definition lang_from_cstr :: "string \<Rightarrow> Lang" where
  "lang_from_cstr cstr =
     (if length cstr < 5 then lang_unknown
      else if cstr = STRNAME_en_HK then en_HK
      else if cstr = STRNAME_en_US then en_US
      else if cstr = STRNAME_en_ZW then en_ZW
      else if cstr = STRNAME_zh_CN then zh_CN
      else if cstr = STRNAME_zh_HK then zh_HK
      else lang_unknown)"

definition lang_to_cstr :: "Lang \<Rightarrow> string" where
  "lang_to_cstr l =
     (if l = en_HK then STRNAME_en_HK
      else if l = en_US then STRNAME_en_US
      else if l = en_ZW then STRNAME_en_ZW
      else if l = zh_CN then STRNAME_zh_CN
      else if l = zh_HK then STRNAME_zh_HK
      else STRNAME_unknown)"

text \<open>What \<open>operator <<\<close> appends to a stream.\<close>

definition put_lang :: "string \<Rightarrow> Lang \<Rightarrow> string" where
  "put_lang os l = os @ lang_to_cstr l"

section \<open>Choosing a locale\<close>

text \<open>
  \<open>host_lang\<close> and \<open>prefer_lang\<close> are the two globals; \<open>proc_locale\<close> is the
  process locale that \<open>setlocale (LC_ALL, _)\<close> changes. Which locales the host has is the
  parameter \<open>avail\<close>: \<open>setlocale\<close> succeeds on those names and leaves the process
  locale alone otherwise.
\<close>

record locale_state =
  host_lang :: Lang
  prefer_lang :: Lang
  proc_locale :: string

definition lclist :: "(string \<times> Lang) list" where
  "lclist =
     [(STRNAME_en_US, en_US), (STRNAME_en_HK, en_HK), (STRNAME_en_ZW, en_ZW),
      (STRNAME_zh_CN, zh_CN), (STRNAME_zh_HK, zh_HK)]"

definition locale_name :: "string \<Rightarrow> string" where
  "locale_name strname =
     (if length strname = 5 \<and> strname ! 2 = CHR ''-'' then strname[2 := CHR ''_''] @ ''.UTF-8''
      else if length strname = 6 \<and> strname ! 3 = CHR ''-'' then strname[3 := CHR ''_''] @ ''.UTF-8''
      else strname)"

text \<open>
  The loop over \<open>lclist\<close>. \<open>Inl\<close> is the early \<open>return true\<close> on the preferred
  language, \<open>Inr\<close> the list of supported entries when the loop ends.
\<close>

fun try_locales ::
  "(string \<Rightarrow> bool) \<Rightarrow> (string \<times> Lang) list \<Rightarrow> (string \<times> Lang) list \<Rightarrow> locale_state \<Rightarrow>
     locale_state + ((string \<times> Lang) list \<times> locale_state)" where
  "try_locales avail [] supported st = Inr (supported, st)"
| "try_locales avail (t # ts) supported st =
     (let tmpbuf = locale_name (fst t)
      in if avail tmpbuf then
           (let st' = st\<lparr>proc_locale := tmpbuf\<rparr>; lc = snd t
            in if lc = prefer_lang st' then Inl (st'\<lparr>host_lang := lc\<rparr>)
               else try_locales avail ts (supported @ [t]) st')
         else try_locales avail ts supported st)"

definition try_ensure_locale :: "(string \<Rightarrow> bool) \<Rightarrow> locale_state \<Rightarrow> bool \<times> locale_state" where
  "try_ensure_locale avail st =
     (case try_locales avail lclist [] st of
        Inl st' \<Rightarrow> (True, st')
      | Inr (supported, st') \<Rightarrow>
          (case supported of
             [] \<Rightarrow> (False, st')
           | t # _ \<Rightarrow>
               (True, (if avail (fst t) then st'\<lparr>proc_locale := fst t\<rparr> else st')
                        \<lparr>host_lang := snd t\<rparr>)))"

section \<open>Lemmas\<close>

definition supported_names :: "string list" where
  "supported_names = map fst lclist"

text \<open>
  Language codes and names translate back and forth: exactly the five supported names denote
  a language, reading back the name of a language gives it, and everything else becomes unknown.
\<close>

theorem lang_names_roundtrip:
  "lang_from_cstr (lang_to_cstr l) = (if l \<in> snd ` set lclist then l else lang_unknown) \<and>
   lang_to_cstr (lang_from_cstr s) = (if s \<in> set supported_names then s else STRNAME_unknown)"
  by (auto simp: lang_from_cstr_def lang_to_cstr_def lclist_def supported_names_def lang_defs
      strname_defs)

lemma try_locales_spec:
  "try_locales avail ts supp st =
     (let ok = filter (\<lambda>t. avail (locale_name (fst t))) ts
      in case find (\<lambda>t. snd t = prefer_lang st) ok of
           Some t \<Rightarrow> Inl (st\<lparr>proc_locale := locale_name (fst t), host_lang := snd t\<rparr>)
         | None \<Rightarrow> Inr (supp @ ok,
             if ok = [] then st else st\<lparr>proc_locale := locale_name (fst (last ok))\<rparr>))"
proof (induction ts arbitrary: supp st)
  case (Cons t ts)
  then show ?case by (auto simp: Let_def split: option.splits)
qed simp

text \<open>
  C38: Choosing a locale: it succeeds exactly when the host has one of the five UTF-8 locales; the
  preferred language wins when it is available, and then the process locale is its UTF-8 locale.
  Otherwise the host language is the first supported one, while the process locale is set from its
  plain name when the host knows that name and else stays at the last supported UTF-8 locale tried.
\<close>

theorem try_ensure_locale_spec:
  "try_ensure_locale avail st =
     (let ok = filter (\<lambda>t. avail (locale_name (fst t))) lclist
      in case find (\<lambda>t. snd t = prefer_lang st) ok of
           Some t \<Rightarrow> (True, st\<lparr>proc_locale := locale_name (fst t), host_lang := snd t\<rparr>)
         | None \<Rightarrow>
             (case ok of
                [] \<Rightarrow> (False, st)
              | t # _ \<Rightarrow> (True, st\<lparr>proc_locale := (if avail (fst t) then fst t
                                                 else locale_name (fst (last ok))),
                                 host_lang := snd t\<rparr>)))"
  by (simp add: try_ensure_locale_def try_locales_spec Let_def split: option.splits list.splits)

end
