(* ===== verification/TgMsg.thy ===== *)
theory TgMsg
  imports LocaleConf
begin

text \<open>
  The message of \<open>src/src/tg_msg.hh\<close> and \<open>tg_msg.cc\<close>: the class \<open>TgMsg\<close>, the
  readable timestamp it stores, and its renderings. Text literals are their UTF-8 bytes.
\<close>

section \<open>Timestamps\<close>

text \<open>
  \<open>localtime\<close> depends on the time zone of the host, the parameter \<open>tz\<close>: the offset
  from UTC in seconds and the zone abbreviation in force at an instant. The calendar is the
  proleptic Gregorian one, computed from the day number with years that start in March.
\<close>

record civil =
  year :: int
  month :: int
  day :: int

definition civil_of_days :: "int \<Rightarrow> civil" where
  "civil_of_days days =
     (let z = days + 719468;
          era = z div 146097;
          doe = z mod 146097;
          yoe = (doe - doe div 1460 + doe div 36524 - doe div 146096) div 365;
          doy = doe - (365 * yoe + yoe div 4 - yoe div 100);
          mp = (5 * doy + 2) div 153;
          d = doy - (153 * mp + 2) div 5 + 1;
          mo = (if mp < 10 then mp + 3 else mp - 9)
      in \<lparr>year = yoe + era * 400 + (if mo \<le> 2 then 1 else 0), month = mo, day = d\<rparr>)"

definition show2 :: "int \<Rightarrow> string" where
  "show2 i = [char_of_digit (nat (i div 10)), char_of_digit (nat (i mod 10))]"

text \<open>
  \<open>strftime (buf, 64, "%Y-%m-%d %T %z %Z", localtime (&tt))\<close>: the expanded text, and the
  call, which stores nothing when the text with its NUL does not fit.
\<close>

definition strftime_text :: "int \<Rightarrow> string \<Rightarrow> int \<Rightarrow> string" where
  "strftime_text off abbr secs =
     (let c = civil_of_days (secs div 86400);
          s = secs mod 86400;
          offmin = abs off div 60
      in show_int (year c) @ ''-'' @ show2 (month c) @ ''-'' @ show2 (day c) @ '' '' @
                show2 (s div 3600) @ '':'' @ show2 (s div 60 mod 60) @ '':'' @ show2 (s mod 60) @ '' '' @
                (if off < 0 then ''-'' else ''+'') @ show2 (offmin div 60) @ show2 (offmin mod 60) @
                '' '' @ abbr)"

definition strftime_64 :: "int \<times> string \<Rightarrow> u32 \<Rightarrow> string" where
  "strftime_64 zone tstamp =
     (let out = strftime_text (fst zone) (snd zone) (uint tstamp + fst zone)
      in if length out < 64 then out else [])"

type_synonym timezone = "u32 \<Rightarrow> int \<times> string"

definition make_timestamp_readable :: "timezone \<Rightarrow> u32 \<Rightarrow> string" where
  "make_timestamp_readable tz tstamp =
     (let buf = strftime_64 (tz tstamp) tstamp; nbytes = length buf
      in if nbytes > 0 then buf else ''unknown timestamp'')"

section \<open>The class TgMsg\<close>

record TgMsg =
  m_title :: string
  m_sender :: string
  m_txt :: string
  m_tstamp :: string
  m_id :: u32

text \<open>
  Both constructors; the one from rvalues moves its arguments, the other copies. The signed 32-bit
  timestamp converts to \<open>uint32_t\<close> with its bits unchanged.
\<close>

definition new_TgMsg :: "timezone \<Rightarrow> string \<Rightarrow> string \<Rightarrow> string \<Rightarrow> i32 \<Rightarrow> TgMsg" where
  "new_TgMsg tz chat_title sender text_content tstamp =
     \<lparr>m_title = chat_title, m_sender = sender, m_txt = text_content,
      m_tstamp = make_timestamp_readable tz tstamp, m_id = 0\<rparr>"

definition is_from_tgfocus :: "TgMsg \<Rightarrow> bool" where
  "is_from_tgfocus m = (str_find ''TG-FOCUS'' (m_title m) \<noteq> None)"

definition set_id :: "u32 \<Rightarrow> TgMsg \<Rightarrow> TgMsg" where
  "set_id n m = m\<lparr>m_id := n\<rparr>"

definition tgmsg_to_string :: "TgMsg \<Rightarrow> string" where
  "tgmsg_to_string m =
     ''Telegram Message'' @ ''-<title,'' @ m_title m @ ''>'' @ ''-<sender,'' @ m_sender m @ ''>'' @
     ''-<txt,'' @ m_txt m @ ''>'' @ ''-<tstamp,'' @ m_tstamp m @ ''>''"

text \<open>\<open>operator<<\<close>.\<close>

definition tgmsg_print :: "TgMsg \<Rightarrow> string" where
  "tgmsg_print m =
     ''Telegram Message-'' @ ''<title,'' @ m_title m @ ''>'' @ ''<sender,'' @ m_sender m @ ''>'' @
     ''<txt,'' @ m_txt m @ ''>'' @ ''<tstamp,'' @ m_tstamp m @ ''>'' @
     ''<id,'' @ show_nat (unat (m_id m)) @ ''>''"

text \<open>The text that is sent to the TG-FOCUS chat, by the global \<open>HOST_LANG\<close>.\<close>

definition to_locale_string :: "Lang \<Rightarrow> TgMsg \<Rightarrow> string" where
  "to_locale_string HOST_LANG m =
     (if HOST_LANG = zh_HK then
        (''[ '' @ [CHR 0xE7, CHR 0xBE, CHR 0xA4, CHR 0xE7, CHR 0xB5, CHR 0x84] @ '' ] '') @ m_title m @ [CHR 0x0A] @
        (''[ '' @ [CHR 0xE7, CHR 0x94, CHR 0xA8, CHR 0xE6, CHR 0x88, CHR 0xB6] @ '' ] '') @ m_sender m @ [CHR 0x0A] @
        (''[ '' @ [CHR 0xE8, CHR 0xA8, CHR 0x8A, CHR 0xE6, CHR 0x81, CHR 0xAF] @ '' ] '') @ m_txt m @ [CHR 0x0A] @
        (''[ '' @ [CHR 0xE6, CHR 0x99, CHR 0x82, CHR 0xE9, CHR 0x96, CHR 0x93] @ '' ] '') @ m_tstamp m @ [CHR 0x0A] @
        (''[ '' @ [CHR 0xE6, CHR 0xA8, CHR 0x99, CHR 0xE8, CHR 0xAD, CHR 0x98] @ '' ] '') @ show_nat (unat (m_id m)) @ [CHR 0x0A]
      else if HOST_LANG = zh_CN then
        (''[ '' @ [CHR 0xE7, CHR 0xBE, CHR 0xA4, CHR 0xE7, CHR 0xBB, CHR 0x84] @ '' ] '') @ m_title m @ [CHR 0x0A] @
        (''[ '' @ [CHR 0xE7, CHR 0x94, CHR 0xA8, CHR 0xE6, CHR 0x88, CHR 0xB7] @ '' ] '') @ m_sender m @ [CHR 0x0A] @
        (''[ '' @ [CHR 0xE4, CHR 0xBF, CHR 0xA1, CHR 0xE6, CHR 0x81, CHR 0xAF] @ '' ] '') @ m_txt m @ [CHR 0x0A] @
        (''[ '' @ [CHR 0xE6, CHR 0x97, CHR 0xB6, CHR 0xE9, CHR 0x97, CHR 0xB4] @ '' ] '') @ m_tstamp m @ [CHR 0x0A] @
        (''[ '' @ [CHR 0xE6, CHR 0xA0, CHR 0x87, CHR 0xE8, CHR 0xAF, CHR 0x86] @ '' ] '') @ show_nat (unat (m_id m)) @ [CHR 0x0A]
      else
        ([CHR 0xF0, CHR 0x9F, CHR 0x92, CHR 0xA1] @ '' | '') @ m_title m @ [CHR 0x0A] @
        ([CHR 0xE2, CHR 0x9C, CHR 0x89] @ '' | '') @ m_sender m @ [CHR 0x0A] @
        ([CHR 0xF0, CHR 0x9F, CHR 0x92, CHR 0xAC] @ '' | '') @ m_txt m @ [CHR 0x0A] @
        ([CHR 0xF0, CHR 0x9F, CHR 0x95, CHR 0x94] @ '' | '') @ m_tstamp m @ [CHR 0x0A] @
        ([CHR 0xE2, CHR 0x99, CHR 0xBE] @ '' | '') @ show_nat (unat (m_id m)) @ [CHR 0x0A])"


lemma make_timestamp_len: "length (make_timestamp_readable tz t) < 64"
  by (simp add: make_timestamp_readable_def strftime_64_def Let_def)

lemma make_timestamp_nonempty: "make_timestamp_readable tz t \<noteq> []"
  by (auto simp: make_timestamp_readable_def Let_def)

text \<open>The epoch, a leap day and the last second of the unsigned range, in UTC and in two zones.\<close>

lemma civil_examples:
  "civil_of_days 0 = \<lparr>year = 1970, month = 1, day = 1\<rparr>"
  "civil_of_days 11016 = \<lparr>year = 2000, month = 2, day = 29\<rparr>"
  "civil_of_days 49710 = \<lparr>year = 2106, month = 2, day = 7\<rparr>"
  by code_simp+

lemma make_timestamp_examples:
  "make_timestamp_readable (\<lambda>_. (0, ''UTC'')) 0 = ''1970-01-01 00:00:00 +0000 UTC''"
  "make_timestamp_readable (\<lambda>_. (28800, ''HKT'')) 951782399 = ''2000-02-29 07:59:59 +0800 HKT''"
  "make_timestamp_readable (\<lambda>_. (-12600, ''NST'')) 0xFFFFFFFF = ''2106-02-07 02:58:15 -0330 NST''"
  by (simp_all add: make_timestamp_readable_def strftime_64_def strftime_text_def show2_def
      show_int_def civil_examples show_nat.simps char_of_digit_def)

end
