(* ===== verification/Utf.thy ===== *)
theory Utf
  imports Prelude
begin

text \<open>
  \<open>src/src/utfutils.cc\<close>: counting and producing UTF-16 code units, which Telegram text
  entities are measured in. The C function \<open>mbrtoc16\<close> is modelled as the standard describes
  it for a UTF-8 locale (RFC 3629: no overlong forms, no surrogates, nothing above
  \<open>0x10FFFF\<close>); a locale whose encoding is not UTF-8 is not modelled.
\<close>

section \<open>mbrtoc16 in a UTF-8 locale\<close>

datatype mb_next =
    MbChar nat nat  \<comment> \<open>a code point and the number of bytes it takes\<close>
  | MbPartial       \<comment> \<open>the bytes are a proper prefix of a character\<close>
  | MbBad

text \<open>
  For a leading byte: the continuation bytes needed, the bounds of the first of them, and the bits
  of the code point that the leading byte holds.
\<close>

definition utf8_lead :: "nat \<Rightarrow> (nat \<times> nat \<times> nat \<times> nat) option" where
  "utf8_lead b =
     (if b < 0x80 then Some (0, 0x80, 0xBF, b)
      else if b < 0xC2 then None
      else if b < 0xE0 then Some (1, 0x80, 0xBF, b - 0xC0)
      else if b = 0xE0 then Some (2, 0xA0, 0xBF, 0)
      else if b = 0xED then Some (2, 0x80, 0x9F, 0xD)
      else if b < 0xF0 then Some (2, 0x80, 0xBF, b - 0xE0)
      else if b = 0xF0 then Some (3, 0x90, 0xBF, 0)
      else if b < 0xF4 then Some (3, 0x80, 0xBF, b - 0xF0)
      else if b = 0xF4 then Some (3, 0x80, 0x8F, 4)
      else None)"

fun utf8_conts :: "nat \<Rightarrow> nat \<Rightarrow> nat \<Rightarrow> nat \<Rightarrow> nat \<Rightarrow> nat list \<Rightarrow> mb_next" where
  "utf8_conts len 0 lo hi acc bs = MbChar acc len"
| "utf8_conts len (Suc n) lo hi acc [] = MbPartial"
| "utf8_conts len (Suc n) lo hi acc (b # bs) =
     (if lo \<le> b \<and> b \<le> hi then utf8_conts len n 0x80 0xBF (acc * 64 + (b - 0x80)) bs
      else MbBad)"

fun utf8_next :: "nat list \<Rightarrow> mb_next" where
  "utf8_next [] = MbPartial"
| "utf8_next (b # bs) =
     (case utf8_lead b of
        None \<Rightarrow> MbBad
      | Some (n, lo, hi, acc) \<Rightarrow> utf8_conts (Suc n) n lo hi acc bs)"

definition utf16_enc :: "nat \<Rightarrow> u16 list" where
  "utf16_enc cp =
     (if cp < 0x10000 then [word_of_nat cp]
      else [word_of_nat (0xD800 + (cp - 0x10000) div 0x400),
            word_of_nat (0xDC00 + (cp - 0x10000) mod 0x400)])"

text \<open>
  The result of a call: the bytes consumed, or the three negative codes. The conversion state is
  the low surrogate still to be delivered; the partial character of a \<open>-2\<close> result is not
  kept, because every caller stops there.
\<close>

datatype mb_rc = RcBytes nat | RcInvalid | RcPartial | RcPending

definition mbrtoc16 :: "nat list \<Rightarrow> u16 option \<Rightarrow> mb_rc \<times> u16 \<times> u16 option" where
  "mbrtoc16 bs state =
     (case state of
        Some low \<Rightarrow> (RcPending, low, None)
      | None \<Rightarrow>
          (case utf8_next bs of
             MbPartial \<Rightarrow> (RcPartial, 0, None)
           | MbBad \<Rightarrow> (RcInvalid, 0, None)
           | MbChar cp len \<Rightarrow>
               (case utf16_enc cp of
                  [u, low] \<Rightarrow> (RcBytes len, u, Some low)
                | us \<Rightarrow> (RcBytes (if cp = 0 then 0 else len), hd us, None))))"

section \<open>The conversion loop\<close>

definition bytes_of :: "string \<Rightarrow> nat list" where
  "bytes_of s = map of_char s"

lemma utf8_conts_len: "utf8_conts len n lo hi acc bs = MbChar cp l \<Longrightarrow> l = len \<and> n \<le> length bs"
  by (induction len n lo hi acc bs rule: utf8_conts.induct) (auto split: if_splits)

lemma utf8_next_len: "utf8_next bs = MbChar cp l \<Longrightarrow> 0 < l \<and> l \<le> length bs"
  by (cases bs) (auto split: option.splits dest: utf8_conts_len)

text \<open>
  The units written to the output buffer, in order. A step that consumes no byte is either the
  delivery of a pending surrogate or the null character, which ends the loop after it was written.
\<close>

function (sequential) c16_loop :: "nat list \<Rightarrow> u16 option \<Rightarrow> u16 list" where
  "c16_loop bs state =
     (case mbrtoc16 bs state of
        (RcInvalid, c, st) \<Rightarrow> []
      | (RcPartial, c, st) \<Rightarrow> []
      | (RcPending, c, st) \<Rightarrow> c # c16_loop bs st
      | (RcBytes n, c, st) \<Rightarrow> if n = 0 then [c] else c # c16_loop (drop n bs) st)"
  by pat_completeness auto

lemma mbrtoc16_pending:
  "mbrtoc16 bs state = (RcPending, c, st) \<Longrightarrow> state = Some c \<and> st = None"
  by (auto simp: mbrtoc16_def split: option.splits mb_next.splits list.splits)

lemma mbrtoc16_bytes:
  "mbrtoc16 bs state = (RcBytes n, c, st) \<Longrightarrow>
     state = None \<and> n \<le> length bs \<and> 0 < length bs \<and>
     (n = 0 \<longrightarrow> st = None) \<and> (st \<noteq> None \<longrightarrow> 0 < n)"
  by (auto simp: mbrtoc16_def split: option.splits mb_next.splits list.splits if_splits
      dest: utf8_next_len)

termination c16_loop
  by (relation "measure (\<lambda>(bs, st). 2 * length bs + (if st = None then 0 else 1))")
    (auto dest!: mbrtoc16_pending sym [of _ "mbrtoc16 _ _"] mbrtoc16_bytes)

declare c16_loop.simps [simp del]

definition get_c16_len :: "string \<Rightarrow> nat" where
  "get_c16_len utf8s =
     (if length utf8s = 0 then 0
      else if length utf8s > 1024 then 0
      else length (c16_loop (bytes_of utf8s) None))"

definition get_c16_seq :: "string \<Rightarrow> u16 list" where
  "get_c16_seq utf8s = (if length utf8s = 0 then [] else c16_loop (bytes_of utf8s) None)"


section \<open>The output buffer is large enough\<close>

lemma utf8_next_single: "utf8_next bs = MbChar cp l \<Longrightarrow> 0x80 \<le> cp \<Longrightarrow> 2 \<le> l"
  by (cases bs) (auto simp: utf8_lead_def split: option.splits if_splits dest: utf8_conts_len)

lemma mbrtoc16_surrogate_len:
  "mbrtoc16 bs state = (RcBytes n, c, st) \<Longrightarrow> st \<noteq> None \<Longrightarrow> 2 \<le> n"
  by (auto simp: mbrtoc16_def utf16_enc_def split: option.splits mb_next.splits list.splits if_splits
      dest: utf8_next_single)

lemma c16_loop_bound:
  "length (c16_loop bs st) \<le> length bs + (if st = None then 0 else 1)"
proof (induction bs st rule: c16_loop.induct)
  case (1 bs st)
  obtain rc c st' where m: "mbrtoc16 bs st = (rc, c, st')" by (cases "mbrtoc16 bs st") auto
  show ?case
  proof (cases rc)
    case (RcBytes n)
    with m have facts: "st = None" "n \<le> length bs" "0 < length bs" "st' \<noteq> None \<longrightarrow> 2 \<le> n"
      using mbrtoc16_bytes mbrtoc16_surrogate_len by blast+
    show ?thesis
    proof (cases "n = 0")
      case True
      with m RcBytes facts show ?thesis by (subst c16_loop.simps) (auto simp: Suc_le_eq)
    next
      case False
      with 1(1) [OF m [symmetric] RcBytes refl False] m RcBytes
      have "length (c16_loop (drop n bs) st') \<le> length (drop n bs) + (if st' = None then 0 else 1)"
        by simp
      with m RcBytes facts False show ?thesis
        by (subst c16_loop.simps) (auto split: if_splits)
    qed
  next
    case RcPending
    with m have "st = Some c" "st' = None" using mbrtoc16_pending by blast+
    with 1(2) [OF m [symmetric] RcPending refl] m RcPending show ?thesis
      by (subst c16_loop.simps) simp
  qed (use m in \<open>subst c16_loop.simps; simp\<close>)+
qed

section \<open>Agreement with the encoding forms of Unicode\<close>

definition utf8_enc :: "nat \<Rightarrow> nat list" where
  "utf8_enc cp =
     (if cp < 0x80 then [cp]
      else if cp < 0x800 then [0xC0 + cp div 64, 0x80 + cp mod 64]
      else if cp < 0x10000 then [0xE0 + cp div 4096, 0x80 + cp div 64 mod 64, 0x80 + cp mod 64]
      else [0xF0 + cp div 262144, 0x80 + cp div 4096 mod 64, 0x80 + cp div 64 mod 64,
            0x80 + cp mod 64])"

definition is_scalar :: "nat \<Rightarrow> bool" where
  "is_scalar cp = (0 < cp \<and> cp < 0x110000 \<and> \<not> (0xD800 \<le> cp \<and> cp < 0xE000))"

text \<open>The bytes of a text and its UTF-16 code units, from its code points.\<close>

definition utf8_str :: "nat list \<Rightarrow> string" where
  "utf8_str cps = map char_of (concat (map utf8_enc cps))"

definition utf16_units :: "nat list \<Rightarrow> u16 list" where
  "utf16_units cps = concat (map utf16_enc cps)"

lemma utf8_enc_byte: "is_scalar cp \<Longrightarrow> b \<in> set (utf8_enc cp) \<Longrightarrow> b < 256"
  by (auto simp: utf8_enc_def is_scalar_def split: if_splits)

lemma utf8_conts_unroll:
  "utf8_conts len 1 lo hi acc (b # bs) =
     (if lo \<le> b \<and> b \<le> hi then MbChar (acc * 64 + (b - 0x80)) len else MbBad)"
  "utf8_conts len 2 lo hi acc (b # bs) =
     (if lo \<le> b \<and> b \<le> hi then utf8_conts len 1 0x80 0xBF (acc * 64 + (b - 0x80)) bs else MbBad)"
  "utf8_conts len 3 lo hi acc (b # bs) =
     (if lo \<le> b \<and> b \<le> hi then utf8_conts len 2 0x80 0xBF (acc * 64 + (b - 0x80)) bs else MbBad)"
  by (simp_all add: eval_nat_numeral)

lemma base64_split: "\<exists>q r. (cp::nat) = q * 64 + r \<and> r < 64 \<and> q = cp div 64 \<and> r = cp mod 64"
  by (intro exI [of _ "cp div 64"] exI [of _ "cp mod 64"]) simp

lemma utf8_next_enc2:
  assumes "0x80 \<le> cp" and "cp < 0x800"
  shows "utf8_next (utf8_enc cp @ rest) = MbChar cp 2"
proof -
  obtain q r where c: "cp = q * 64 + r" "r < 64" "q = cp div 64" "r = cp mod 64"
    using base64_split by blast
  have "utf8_enc cp = [0xC0 + q, 0x80 + r]"
    using assms c(3,4) by (simp add: utf8_enc_def)
  moreover have "2 \<le> q" "q < 32" using assms c(1,2) by linarith+
  ultimately show ?thesis
    using c(1,2) by (simp add: utf8_lead_def utf8_conts_unroll)
qed

lemma utf8_next_enc3:
  assumes "0x800 \<le> cp" and "cp < 0x10000" and "\<not> (0xD800 \<le> cp \<and> cp < 0xE000)"
  shows "utf8_next (utf8_enc cp @ rest) = MbChar cp 3"
proof -
  obtain q r where c: "cp = q * 64 + r" "r < 64" "q = cp div 64" "r = cp mod 64"
    using base64_split by blast
  obtain p t where d: "q = p * 64 + t" "t < 64" "p = q div 64" "t = q mod 64"
    using base64_split by blast
  have "cp div 4096 = p" using c(3) d(3) by (simp add: div_mult2_eq [symmetric])
  then have enc: "utf8_enc cp = [0xE0 + p, 0x80 + t, 0x80 + r]"
    using assms(1,2) c(3,4) d(4) by (simp add: utf8_enc_def)
  have b: "p < 16" "p = 0 \<longrightarrow> 32 \<le> t" "p = 13 \<longrightarrow> t < 32"
    using assms c(1,2) d(1,2) by linarith+
  have "cp = (p * 64 + t) * 64 + r" using c(1) d(1) by simp
  with enc b c(2) d(2) show ?thesis
    by (auto simp add: utf8_lead_def utf8_conts_unroll)
qed

lemma utf8_next_enc4:
  assumes "0x10000 \<le> cp" and "cp < 0x110000"
  shows "utf8_next (utf8_enc cp @ rest) = MbChar cp 4"
proof -
  obtain q r where c: "cp = q * 64 + r" "r < 64" "q = cp div 64" "r = cp mod 64"
    using base64_split by blast
  obtain p t where d: "q = p * 64 + t" "t < 64" "p = q div 64" "t = q mod 64"
    using base64_split by blast
  obtain m u where e: "p = m * 64 + u" "u < 64" "m = p div 64" "u = p mod 64"
    using base64_split by blast
  have "cp div 4096 = p" "cp div 262144 = m"
    using c(3) d(3) e(3) by (simp_all add: div_mult2_eq [symmetric])
  then have enc: "utf8_enc cp = [0xF0 + m, 0x80 + u, 0x80 + t, 0x80 + r]"
    using assms c(3,4) d(4) e(4) by (simp add: utf8_enc_def)
  have b: "m < 5" "m = 0 \<longrightarrow> 16 \<le> u" "m = 4 \<longrightarrow> u < 16"
    using assms c(1,2) d(1,2) e(1,2) by linarith+
  have "cp = ((m * 64 + u) * 64 + t) * 64 + r" using c(1) d(1) e(1) by simp
  with enc b c(2) d(2) e(2) show ?thesis
    by (auto simp add: utf8_lead_def utf8_conts_unroll)
qed

lemma utf8_next_enc:
  assumes "is_scalar cp"
  shows "utf8_next (utf8_enc cp @ rest) = MbChar cp (length (utf8_enc cp))"
  using assms utf8_next_enc2 [of cp rest] utf8_next_enc3 [of cp rest] utf8_next_enc4 [of cp rest]
  by (cases "cp < 0x80"; cases "cp < 0x800"; cases "cp < 0x10000")
    (auto simp: is_scalar_def utf8_enc_def utf8_lead_def)

lemma mbrtoc16_enc:
  assumes "is_scalar cp"
  shows "mbrtoc16 (utf8_enc cp @ rest) None =
    (if cp < 0x10000 then (RcBytes (length (utf8_enc cp)), hd (utf16_enc cp), None)
     else (RcBytes (length (utf8_enc cp)), hd (utf16_enc cp), Some (last (utf16_enc cp))))"
  using assms utf8_next_enc [OF assms, of rest]
  by (auto simp: mbrtoc16_def utf16_enc_def is_scalar_def)

lemma utf8_enc_nonempty [simp]: "utf8_enc cp \<noteq> []"
  by (simp add: utf8_enc_def)

lemma c16_loop_enc:
  assumes "is_scalar cp"
  shows "c16_loop (utf8_enc cp @ rest) None = utf16_enc cp @ c16_loop rest None"
proof (cases "cp < 0x10000")
  case True
  then show ?thesis
    using mbrtoc16_enc [OF assms, of rest]
    by (subst c16_loop.simps) (simp add: utf16_enc_def)
next
  case False
  have pend: "c16_loop rest (Some low) = low # c16_loop rest None" for low
    by (subst c16_loop.simps) (simp add: mbrtoc16_def)
  from False show ?thesis
    using mbrtoc16_enc [OF assms, of rest]
    by (subst c16_loop.simps) (simp add: utf16_enc_def pend)
qed

lemma c16_loop_nil [simp]: "c16_loop [] None = []"
  by (subst c16_loop.simps) (simp add: mbrtoc16_def)

lemma c16_loop_valid:
  "list_all is_scalar cps \<Longrightarrow>
     c16_loop (concat (map utf8_enc cps) @ rest) None = utf16_units cps @ c16_loop rest None"
  by (induction cps) (auto simp: c16_loop_enc utf16_units_def)

lemma bytes_of_utf8_str:
  assumes "list_all is_scalar cps"
  shows "bytes_of (utf8_str cps) = concat (map utf8_enc cps)"
proof -
  have "\<forall>b \<in> set (concat (map utf8_enc cps)). b < 256"
    using assms utf8_enc_byte by (fastforce simp: list_all_iff)
  then show ?thesis
    by (auto simp: bytes_of_def utf8_str_def intro!: map_idI)
qed

lemma bytes_of_append [simp]: "bytes_of (s @ t) = bytes_of s @ bytes_of t"
  and length_bytes_of [simp]: "length (bytes_of s) = length s"
  by (simp_all add: bytes_of_def)

lemma get_c16_seq_eq: "get_c16_seq s = c16_loop (bytes_of s) None"
  by (cases s) (simp_all add: get_c16_seq_def bytes_of_def)

lemma get_c16_len_eq: "length s \<le> 1024 \<Longrightarrow> get_c16_len s = length (get_c16_seq s)"
  by (cases s) (simp_all add: get_c16_seq_def get_c16_len_def)

lemma get_c16_seq_append:
  assumes "list_all is_scalar cps"
  shows "get_c16_seq (utf8_str cps @ t) = utf16_units cps @ get_c16_seq t"
  by (simp add: get_c16_seq_eq bytes_of_utf8_str [OF assms] c16_loop_valid [OF assms])

lemma get_c16_seq_utf8:
  "list_all is_scalar cps \<Longrightarrow> get_c16_seq (utf8_str cps) = utf16_units cps"
  using get_c16_seq_append [of cps "[]"] by (simp add: get_c16_seq_def)

text \<open>
  C24: \<open>get_c16_seq\<close> turns every well-formed UTF-8 text (no NUL) into exactly its UTF-16
  code units, surrogate pairs included, and on texts of at most 1024 bytes \<open>get_c16_len\<close> is
  their number.
\<close>

theorem c16_conversion_correct:
  assumes "list_all is_scalar cps"
  shows "get_c16_seq (utf8_str cps) = utf16_units cps \<and>
         (length (utf8_str cps) \<le> 1024 \<longrightarrow>
            get_c16_len (utf8_str cps) = length (utf16_units cps))"
  using get_c16_seq_utf8 [OF assms] get_c16_len_eq [of "utf8_str cps"] by simp

lemma c16_conversion_witness:
  "get_c16_seq (utf8_str [0x41, 0xE9, 0x7FA4, 0x1F4A1]) = [0x41, 0xE9, 0x7FA4, 0xD83D, 0xDCA1]"
  using c16_conversion_correct [of "[0x41, 0xE9, 0x7FA4, 0x1F4A1]"]
  by (simp add: is_scalar_def utf16_units_def utf16_enc_def)

text \<open>
  C35: Whatever the bytes, valid or not, the conversion never writes more code units than the
  text has bytes, the size of the stack buffer of \<open>get_c16_len\<close> and of the heap buffer of
  \<open>get_c16_seq\<close>.
\<close>

theorem c16_buffers_suffice:
  "length (c16_loop (bytes_of s) None) \<le> length s \<and> length (get_c16_seq s) \<le> length s \<and>
   get_c16_len s \<le> length s"
  using c16_loop_bound [of "bytes_of s" None]
  by (simp add: get_c16_seq_def get_c16_len_def)

end
