(* ===== verification/Decor.thy ===== *)
theory Decor
  imports TgMsg Utf
begin

text \<open>
  The decoration part of \<open>src/src/tg_msg.cc\<close>: recognising the field labels of a rendered
  message in its UTF-16 code units, per host language, and listing their positions. The
  \<open>get_endi_*\<close> functions are only called with \<open>begi\<close> inside the sequence, which is
  what makes \<open>cuseq[begi]\<close> defined.
\<close>

section \<open>Label recognisers\<close>

definition en_us_get_endi_chat :: "u16 list \<Rightarrow> nat \<Rightarrow> nat option" where
  "en_us_get_endi_chat cuseq begi =
     (if cuseq ! begi = 0xD83D \<and> begi + 4 < length cuseq then
        (if cuseq ! (begi + 1) = 0xDCA1 \<and> cuseq ! (begi + 2) = 0x20 \<and> cuseq ! (begi + 3) = 0x5B \<and>
           cuseq ! (begi + 4) = 0x20
         then Some 4 else None)
      else None)"

definition en_us_get_endi_sender :: "u16 list \<Rightarrow> nat \<Rightarrow> nat option" where
  "en_us_get_endi_sender cuseq begi =
     (if cuseq ! begi = 0x7D44 \<and> begi + 3 < length cuseq then
        (if cuseq ! (begi + 1) = 0x20 \<and> cuseq ! (begi + 2) = 0x5B \<and> cuseq ! (begi + 3) = 0x20
         then Some 3 else None)
      else None)"

definition en_us_get_endi_content :: "u16 list \<Rightarrow> nat \<Rightarrow> nat option" where
  "en_us_get_endi_content cuseq begi =
     (if cuseq ! begi = 0xD83D \<and> begi + 4 < length cuseq then
        (if cuseq ! (begi + 1) = 0xDCAC \<and> cuseq ! (begi + 2) = 0x20 \<and> cuseq ! (begi + 3) = 0x5B \<and>
           cuseq ! (begi + 4) = 0x20
         then Some 4 else None)
      else None)"

definition en_us_get_endi_date :: "u16 list \<Rightarrow> nat \<Rightarrow> nat option" where
  "en_us_get_endi_date cuseq begi =
     (if cuseq ! begi = 0xD83D \<and> begi + 4 < length cuseq then
        (if cuseq ! (begi + 1) = 0xDD54 \<and> cuseq ! (begi + 2) = 0x20 \<and> cuseq ! (begi + 3) = 0x5B \<and>
           cuseq ! (begi + 4) = 0x20
         then Some 4 else None)
      else None)"

definition en_us_get_endi_id :: "u16 list \<Rightarrow> nat \<Rightarrow> nat option" where
  "en_us_get_endi_id cuseq begi =
     (if cuseq ! begi = 0x267E \<and> begi + 3 < length cuseq then
        (if cuseq ! (begi + 1) = 0x20 \<and> cuseq ! (begi + 2) = 0x5B \<and> cuseq ! (begi + 3) = 0x20
         then Some 3 else None)
      else None)"

definition zh_hk_get_endi_chat :: "u16 list \<Rightarrow> nat \<Rightarrow> nat option" where
  "zh_hk_get_endi_chat cuseq begi =
     (if cuseq ! begi = 0x5B \<and> begi + 5 < length cuseq then
        (if cuseq ! (begi + 1) = 0x20 \<and> cuseq ! (begi + 2) = 0x7FA4 \<and> cuseq ! (begi + 3) = 0x7D44 \<and>
           cuseq ! (begi + 4) = 0x20 \<and> cuseq ! (begi + 5) = 0x5D
         then Some 5 else None)
      else None)"

definition zh_hk_get_endi_sender :: "u16 list \<Rightarrow> nat \<Rightarrow> nat option" where
  "zh_hk_get_endi_sender cuseq begi =
     (if cuseq ! begi = 0x5B \<and> begi + 5 < length cuseq then
        (if cuseq ! (begi + 1) = 0x20 \<and> cuseq ! (begi + 2) = 0x7528 \<and> cuseq ! (begi + 3) = 0x6236 \<and>
           cuseq ! (begi + 4) = 0x20 \<and> cuseq ! (begi + 5) = 0x5D
         then Some 5 else None)
      else None)"

definition zh_hk_get_endi_content :: "u16 list \<Rightarrow> nat \<Rightarrow> nat option" where
  "zh_hk_get_endi_content cuseq begi =
     (if cuseq ! begi = 0x5B \<and> begi + 5 < length cuseq then
        (if cuseq ! (begi + 1) = 0x20 \<and> cuseq ! (begi + 2) = 0x8A0A \<and> cuseq ! (begi + 3) = 0x606F \<and>
           cuseq ! (begi + 4) = 0x20 \<and> cuseq ! (begi + 5) = 0x5D
         then Some 5 else None)
      else None)"

definition zh_hk_get_endi_date :: "u16 list \<Rightarrow> nat \<Rightarrow> nat option" where
  "zh_hk_get_endi_date cuseq begi =
     (if cuseq ! begi = 0x5B \<and> begi + 5 < length cuseq then
        (if cuseq ! (begi + 1) = 0x20 \<and> cuseq ! (begi + 2) = 0x6642 \<and> cuseq ! (begi + 3) = 0x9593 \<and>
           cuseq ! (begi + 4) = 0x20 \<and> cuseq ! (begi + 5) = 0x5D
         then Some 5 else None)
      else None)"

definition zh_hk_get_endi_id :: "u16 list \<Rightarrow> nat \<Rightarrow> nat option" where
  "zh_hk_get_endi_id cuseq begi =
     (if cuseq ! begi = 0x5B \<and> begi + 5 < length cuseq then
        (if cuseq ! (begi + 1) = 0x20 \<and> cuseq ! (begi + 2) = 0x6A19 \<and> cuseq ! (begi + 3) = 0x8B58 \<and>
           cuseq ! (begi + 4) = 0x20 \<and> cuseq ! (begi + 5) = 0x5D
         then Some 5 else None)
      else None)"

definition zh_cn_get_endi_chat :: "u16 list \<Rightarrow> nat \<Rightarrow> nat option" where
  "zh_cn_get_endi_chat cuseq begi =
     (if cuseq ! begi = 0x5B \<and> begi + 5 < length cuseq then
        (if cuseq ! (begi + 1) = 0x20 \<and> cuseq ! (begi + 2) = 0x7FA4 \<and> cuseq ! (begi + 3) = 0x7EC4 \<and>
           cuseq ! (begi + 4) = 0x20 \<and> cuseq ! (begi + 5) = 0x5D
         then Some 5 else None)
      else None)"

definition zh_cn_get_endi_sender :: "u16 list \<Rightarrow> nat \<Rightarrow> nat option" where
  "zh_cn_get_endi_sender cuseq begi =
     (if cuseq ! begi = 0x5B \<and> begi + 5 < length cuseq then
        (if cuseq ! (begi + 1) = 0x20 \<and> cuseq ! (begi + 2) = 0x7528 \<and> cuseq ! (begi + 3) = 0x6237 \<and>
           cuseq ! (begi + 4) = 0x20 \<and> cuseq ! (begi + 5) = 0x5D
         then Some 5 else None)
      else None)"

definition zh_cn_get_endi_content :: "u16 list \<Rightarrow> nat \<Rightarrow> nat option" where
  "zh_cn_get_endi_content cuseq begi =
     (if cuseq ! begi = 0x5B \<and> begi + 5 < length cuseq then
        (if cuseq ! (begi + 1) = 0x20 \<and> cuseq ! (begi + 2) = 0x4FE1 \<and> cuseq ! (begi + 3) = 0x606F \<and>
           cuseq ! (begi + 4) = 0x20 \<and> cuseq ! (begi + 5) = 0x5D
         then Some 5 else None)
      else None)"

definition zh_cn_get_endi_date :: "u16 list \<Rightarrow> nat \<Rightarrow> nat option" where
  "zh_cn_get_endi_date cuseq begi =
     (if cuseq ! begi = 0x5B \<and> begi + 5 < length cuseq then
        (if cuseq ! (begi + 1) = 0x20 \<and> cuseq ! (begi + 2) = 0x65F6 \<and> cuseq ! (begi + 3) = 0x95F4 \<and>
           cuseq ! (begi + 4) = 0x20 \<and> cuseq ! (begi + 5) = 0x5D
         then Some 5 else None)
      else None)"

definition zh_cn_get_endi_id :: "u16 list \<Rightarrow> nat \<Rightarrow> nat option" where
  "zh_cn_get_endi_id cuseq begi =
     (if cuseq ! begi = 0x5B \<and> begi + 5 < length cuseq then
        (if cuseq ! (begi + 1) = 0x20 \<and> cuseq ! (begi + 2) = 0x6807 \<and> cuseq ! (begi + 3) = 0x8BC6 \<and>
           cuseq ! (begi + 4) = 0x20 \<and> cuseq ! (begi + 5) = 0x5D
         then Some 5 else None)
      else None)"

definition get_endi_chat :: "Lang \<Rightarrow> u16 list \<Rightarrow> nat \<Rightarrow> nat option" where
  "get_endi_chat HOST_LANG cuseq begi =
     (if HOST_LANG \<in> {en_AU, en_HK, en_GB, en_US} then en_us_get_endi_chat cuseq begi
      else if HOST_LANG = zh_HK then zh_hk_get_endi_chat cuseq begi
      else if HOST_LANG = zh_CN then zh_cn_get_endi_chat cuseq begi
      else None)"

definition get_endi_sender :: "Lang \<Rightarrow> u16 list \<Rightarrow> nat \<Rightarrow> nat option" where
  "get_endi_sender HOST_LANG cuseq begi =
     (if HOST_LANG \<in> {en_AU, en_HK, en_GB, en_US} then en_us_get_endi_sender cuseq begi
      else if HOST_LANG = zh_HK then zh_hk_get_endi_sender cuseq begi
      else if HOST_LANG = zh_CN then zh_cn_get_endi_sender cuseq begi
      else None)"

definition get_endi_content :: "Lang \<Rightarrow> u16 list \<Rightarrow> nat \<Rightarrow> nat option" where
  "get_endi_content HOST_LANG cuseq begi =
     (if HOST_LANG \<in> {en_AU, en_HK, en_GB, en_US} then en_us_get_endi_content cuseq begi
      else if HOST_LANG = zh_HK then zh_hk_get_endi_content cuseq begi
      else if HOST_LANG = zh_CN then zh_cn_get_endi_content cuseq begi
      else None)"

definition get_endi_date :: "Lang \<Rightarrow> u16 list \<Rightarrow> nat \<Rightarrow> nat option" where
  "get_endi_date HOST_LANG cuseq begi =
     (if HOST_LANG \<in> {en_AU, en_HK, en_GB, en_US} then en_us_get_endi_date cuseq begi
      else if HOST_LANG = zh_HK then zh_hk_get_endi_date cuseq begi
      else if HOST_LANG = zh_CN then zh_cn_get_endi_date cuseq begi
      else None)"

definition get_endi_id :: "Lang \<Rightarrow> u16 list \<Rightarrow> nat \<Rightarrow> nat option" where
  "get_endi_id HOST_LANG cuseq begi =
     (if HOST_LANG \<in> {en_AU, en_HK, en_GB, en_US} then en_us_get_endi_id cuseq begi
      else if HOST_LANG = zh_HK then zh_hk_get_endi_id cuseq begi
      else if HOST_LANG = zh_CN then zh_cn_get_endi_id cuseq begi
      else None)"


lemmas endi_lang_defs =
  en_us_get_endi_chat_def en_us_get_endi_sender_def en_us_get_endi_content_def
  en_us_get_endi_date_def en_us_get_endi_id_def zh_hk_get_endi_chat_def
  zh_hk_get_endi_sender_def zh_hk_get_endi_content_def zh_hk_get_endi_date_def
  zh_hk_get_endi_id_def zh_cn_get_endi_chat_def zh_cn_get_endi_sender_def
  zh_cn_get_endi_content_def zh_cn_get_endi_date_def zh_cn_get_endi_id_def

lemmas endi_defs =
  get_endi_chat_def get_endi_sender_def get_endi_content_def get_endi_date_def get_endi_id_def

section \<open>Positions\<close>

text \<open>
  The conversion loop runs over the text with its terminating NUL and stops at the first NUL;
  \<open>None\<close> is the early return on an invalid or cut-off sequence.
\<close>

function (sequential) decor_units :: "nat list \<Rightarrow> u16 option \<Rightarrow> u16 list option" where
  "decor_units bs state =
     (case mbrtoc16 bs state of
        (RcInvalid, c16, st) \<Rightarrow> None
      | (RcPartial, c16, st) \<Rightarrow> None
      | (RcPending, c16, st) \<Rightarrow> map_option ((#) c16) (decor_units bs st)
      | (RcBytes rc, c16, st) \<Rightarrow>
          if rc = 0 then Some [] else map_option ((#) c16) (decor_units (drop rc bs) st))"
  by pat_completeness auto

termination decor_units
  by (relation "measure (\<lambda>(bs, st). 2 * length bs + (if st = None then 0 else 1))")
    (auto dest!: mbrtoc16_pending sym [of _ "mbrtoc16 _ _"] mbrtoc16_bytes)

declare decor_units.simps [simp del]

definition decor_at :: "Lang \<Rightarrow> u16 list \<Rightarrow> nat \<Rightarrow> (nat \<times> nat) list" where
  "decor_at HOST_LANG cuseq i =
     (case get_endi_chat HOST_LANG cuseq i of Some endi \<Rightarrow> [(i, endi + 1)] | None \<Rightarrow> []) @
     (case get_endi_sender HOST_LANG cuseq i of Some endi \<Rightarrow> [(i, endi + 1)] | None \<Rightarrow> []) @
     (case get_endi_content HOST_LANG cuseq i of Some endi \<Rightarrow> [(i, endi + 1)] | None \<Rightarrow> []) @
     (case get_endi_date HOST_LANG cuseq i of Some endi \<Rightarrow> [(i, endi + 1)] | None \<Rightarrow> []) @
     (case get_endi_id HOST_LANG cuseq i of Some endi \<Rightarrow> [(i, endi + 1)] | None \<Rightarrow> [])"

definition get_decor_pos :: "Lang \<Rightarrow> string \<Rightarrow> (nat \<times> nat) list" where
  "get_decor_pos HOST_LANG str =
     (if HOST_LANG = lang_unknown then []
      else case decor_units (bytes_of str @ [0]) None of
             None \<Rightarrow> []
           | Some cuseq \<Rightarrow> concat (map (decor_at HOST_LANG cuseq) [0..<length cuseq]))"

text \<open>Appending an \<open>int\<close> to a \<open>std::string\<close> appends the character with that code.\<close>

definition decor_pos_to_str :: "(nat \<times> nat) list \<Rightarrow> string" where
  "decor_pos_to_str pos =
     concat (map (\<lambda>(a, b). ''<'' @ [char_of a] @ '','' @ [char_of b] @ ''>'' @ '','') pos)"

text \<open>\<open>can_decor\<close> only asks for the locale, see \<open>try_ensure_locale\<close>.\<close>

definition can_decor :: "(string \<Rightarrow> bool) \<Rightarrow> locale_state \<Rightarrow> bool \<times> locale_state" where
  "can_decor avail s = try_ensure_locale avail s"

section \<open>Lemmas\<close>

lemma endi_range:
  "get_endi_chat l u i = Some n \<Longrightarrow> i + n < length u"
  "get_endi_sender l u i = Some n \<Longrightarrow> i + n < length u"
  "get_endi_content l u i = Some n \<Longrightarrow> i + n < length u"
  "get_endi_date l u i = Some n \<Longrightarrow> i + n < length u"
  "get_endi_id l u i = Some n \<Longrightarrow> i + n < length u"
  by (simp_all add: endi_defs endi_lang_defs split: if_splits)

lemma decor_at_range: "(j, n) \<in> set (decor_at l u i) \<Longrightarrow> j = i \<and> 0 < n \<and> i + n \<le> length u"
  by (auto simp: decor_at_def split: option.splits dest: endi_range [OF sym])

lemma endi_excl:
  "get_endi_chat l u i = Some n \<Longrightarrow> get_endi_sender l u i = None"
  "get_endi_chat l u i = Some n \<Longrightarrow> get_endi_content l u i = None"
  "get_endi_chat l u i = Some n \<Longrightarrow> get_endi_date l u i = None"
  "get_endi_chat l u i = Some n \<Longrightarrow> get_endi_id l u i = None"
  "get_endi_sender l u i = Some n \<Longrightarrow> get_endi_content l u i = None"
  "get_endi_sender l u i = Some n \<Longrightarrow> get_endi_date l u i = None"
  "get_endi_sender l u i = Some n \<Longrightarrow> get_endi_id l u i = None"
  "get_endi_content l u i = Some n \<Longrightarrow> get_endi_date l u i = None"
  "get_endi_content l u i = Some n \<Longrightarrow> get_endi_id l u i = None"
  "get_endi_date l u i = Some n \<Longrightarrow> get_endi_id l u i = None"
  by (simp_all add: endi_defs endi_lang_defs split: if_splits)

lemma decor_at_single: "length (decor_at l u i) \<le> 1"
  by (cases "get_endi_chat l u i"; cases "get_endi_sender l u i"; cases "get_endi_content l u i";
      cases "get_endi_date l u i"; cases "get_endi_id l u i")
    (auto simp: decor_at_def dest: endi_excl)

lemma decor_units_enc:
  assumes "is_scalar cp"
  shows "decor_units (utf8_enc cp @ rest) None =
         map_option ((@) (utf16_enc cp)) (decor_units rest None)"
proof (cases "cp < 0x10000")
  case True
  then show ?thesis
    using mbrtoc16_enc [OF assms, of rest]
    by (subst decor_units.simps) (cases "decor_units rest None"; simp add: utf16_enc_def)
next
  case False
  have pend: "decor_units rest (Some low) = map_option ((#) low) (decor_units rest None)" for low
    by (subst decor_units.simps) (simp add: mbrtoc16_def)
  from False show ?thesis
    using mbrtoc16_enc [OF assms, of rest]
    by (subst decor_units.simps) (cases "decor_units rest None"; simp add: utf16_enc_def pend)
qed

lemma decor_units_nul [simp]: "decor_units [0] None = Some []"
  by (subst decor_units.simps) (simp add: mbrtoc16_def utf8_lead_def utf16_enc_def)

lemma decor_units_valid:
  assumes "list_all is_scalar cps"
  shows "decor_units (bytes_of (utf8_str cps) @ [0]) None = Some (utf16_units cps)"
proof -
  have "decor_units (concat (map utf8_enc cps) @ [0]) None = Some (utf16_units cps)"
    using assms by (induction cps) (auto simp: decor_units_enc utf16_units_def)
  then show ?thesis by (simp add: bytes_of_utf8_str [OF assms])
qed

lemma sorted_concat_upt:
  assumes "\<And>i. length (f i) \<le> 1" and "\<And>i p. p \<in> set (f i) \<Longrightarrow> fst p = i"
  shows "sorted_wrt (\<lambda>p q. fst p < fst q) (concat (map f [0..<n]))"
proof (induction n)
  case (Suc n)
  have "sorted_wrt (\<lambda>p q. fst p < fst q) (f n)"
    using assms(1) [of n] by (cases "f n") auto
  with Suc assms(2) show ?case by (auto simp: sorted_wrt_append)
qed simp

text \<open>
  C25: Every position that \<open>get_decor_pos\<close> lists marks a non-empty range inside the text's
  UTF-16 code units, and the ranges come in strictly increasing order of their starts: a start is
  never listed twice, since the five labels of a language exclude one another.
\<close>

theorem decor_ranges_inside:
  assumes "(i, n) \<in> set (get_decor_pos l str)"
  shows "\<exists>cuseq. decor_units (bytes_of str @ [0]) None = Some cuseq \<and> 0 < n \<and> i + n \<le> length cuseq \<and>
           sorted_wrt (\<lambda>p q. fst p < fst q) (get_decor_pos l str)"
proof -
  obtain cuseq where u: "decor_units (bytes_of str @ [0]) None = Some cuseq"
    and pos: "get_decor_pos l str = concat (map (decor_at l cuseq) [0..<length cuseq])"
    using assms
    by (cases "decor_units (bytes_of str @ [0]) None") (auto simp: get_decor_pos_def split: if_splits)
  have "sorted_wrt (\<lambda>p q. fst p < fst q) (get_decor_pos l str)"
    unfolding pos by (rule sorted_concat_upt) (auto simp: decor_at_single [simplified] dest: decor_at_range)
  moreover have "0 < n \<and> i + n \<le> length cuseq"
    using assms unfolding pos by (auto dest: decor_at_range)
  ultimately show ?thesis using u by blast
qed

lemma decor_ranges_witness:
  "\<exists>cuseq. decor_units (bytes_of (utf8_str [0x41, 0x5B, 0x20, 0x4FE1, 0x606F, 0x20, 0x5D]) @ [0]) None = Some cuseq \<and>
     (0::nat) < 6 \<and> 1 + 6 \<le> length cuseq \<and>
     sorted_wrt (\<lambda>p q. fst p < fst q)
       (get_decor_pos zh_CN (utf8_str [0x41, 0x5B, 0x20, 0x4FE1, 0x606F, 0x20, 0x5D]))"
proof -
  have "list_all is_scalar [0x41, 0x5B, 0x20, 0x4FE1, 0x606F, 0x20, 0x5D]"
    by (simp add: is_scalar_def)
  from decor_units_valid [OF this]
  have "(1, 6) \<in> set (get_decor_pos zh_CN (utf8_str [0x41, 0x5B, 0x20, 0x4FE1, 0x606F, 0x20, 0x5D]))"
    by (simp add: get_decor_pos_def utf16_units_def utf16_enc_def decor_at_def endi_defs
        endi_lang_defs lang_defs upt_rec)
  then show ?thesis by (rule decor_ranges_inside)
qed

section \<open>Rendered messages\<close>

lemma hit_zh_HK:
  "get_endi_chat zh_HK (pre @ 0x5B # 0x20 # 0x7FA4 # 0x7D44 # 0x20 # 0x5D # post) (length pre) = Some 5"
  "get_endi_sender zh_HK (pre @ 0x5B # 0x20 # 0x7528 # 0x6236 # 0x20 # 0x5D # post) (length pre) = Some 5"
  "get_endi_content zh_HK (pre @ 0x5B # 0x20 # 0x8A0A # 0x606F # 0x20 # 0x5D # post) (length pre) = Some 5"
  "get_endi_date zh_HK (pre @ 0x5B # 0x20 # 0x6642 # 0x9593 # 0x20 # 0x5D # post) (length pre) = Some 5"
  "get_endi_id zh_HK (pre @ 0x5B # 0x20 # 0x6A19 # 0x8B58 # 0x20 # 0x5D # post) (length pre) = Some 5"
  by (simp_all add: endi_defs endi_lang_defs lang_defs nth_append)

lemma hit_zh_CN:
  "get_endi_chat zh_CN (pre @ 0x5B # 0x20 # 0x7FA4 # 0x7EC4 # 0x20 # 0x5D # post) (length pre) = Some 5"
  "get_endi_sender zh_CN (pre @ 0x5B # 0x20 # 0x7528 # 0x6237 # 0x20 # 0x5D # post) (length pre) = Some 5"
  "get_endi_content zh_CN (pre @ 0x5B # 0x20 # 0x4FE1 # 0x606F # 0x20 # 0x5D # post) (length pre) = Some 5"
  "get_endi_date zh_CN (pre @ 0x5B # 0x20 # 0x65F6 # 0x95F4 # 0x20 # 0x5D # post) (length pre) = Some 5"
  "get_endi_id zh_CN (pre @ 0x5B # 0x20 # 0x6807 # 0x8BC6 # 0x20 # 0x5D # post) (length pre) = Some 5"
  by (simp_all add: endi_defs endi_lang_defs lang_defs nth_append)

text \<open>The two characters of each label, in the order of the rendered lines.\<close>

definition zh_labels :: "Lang \<Rightarrow> (nat \<times> nat) list" where
  "zh_labels l =
     (if l = zh_HK
      then [(0x7FA4, 0x7D44), (0x7528, 0x6236), (0x8A0A, 0x606F), (0x6642, 0x9593), (0x6A19, 0x8B58)]
      else [(0x7FA4, 0x7EC4), (0x7528, 0x6237), (0x4FE1, 0x606F), (0x65F6, 0x95F4), (0x6807, 0x8BC6)])"

definition label_cps :: "nat \<times> nat \<Rightarrow> nat list" where
  "label_cps ab = [0x5B, 0x20, fst ab, snd ab, 0x20, 0x5D, 0x20]"

definition line_cps :: "nat \<times> nat \<Rightarrow> nat list \<Rightarrow> nat list" where
  "line_cps ab body = label_cps ab @ body @ [0x0A]"

lemma utf8_str_append: "utf8_str (xs @ ys) = utf8_str xs @ utf8_str ys"
  by (simp add: utf8_str_def)

lemma utf16_units_append: "utf16_units (xs @ ys) = utf16_units xs @ utf16_units ys"
  by (simp add: utf16_units_def)

lemma ascii_is_utf8:
  assumes "list_all (\<lambda>c. 0 < (of_char c :: nat) \<and> (of_char c :: nat) < 0x80) s"
  shows "utf8_str (map of_char s) = s" and "list_all is_scalar (map of_char s)"
  using assms by (induction s) (auto simp: utf8_str_def utf8_enc_def is_scalar_def)

lemma show_nat_ascii: "list_all (\<lambda>c. 0 < (of_char c :: nat) \<and> (of_char c :: nat) < 0x80) (show_nat n)"
  using show_nat_digits [of n] by (auto simp: list_all_iff is_digit_def)

lemma utf8_str_label:
  "utf8_str (label_cps (0x7FA4, 0x7D44)) = ''[ '' @ [CHR 0xE7, CHR 0xBE, CHR 0xA4, CHR 0xE7, CHR 0xB5, CHR 0x84] @ '' ] ''"
  "utf8_str (label_cps (0x7528, 0x6236)) = ''[ '' @ [CHR 0xE7, CHR 0x94, CHR 0xA8, CHR 0xE6, CHR 0x88, CHR 0xB6] @ '' ] ''"
  "utf8_str (label_cps (0x8A0A, 0x606F)) = ''[ '' @ [CHR 0xE8, CHR 0xA8, CHR 0x8A, CHR 0xE6, CHR 0x81, CHR 0xAF] @ '' ] ''"
  "utf8_str (label_cps (0x6642, 0x9593)) = ''[ '' @ [CHR 0xE6, CHR 0x99, CHR 0x82, CHR 0xE9, CHR 0x96, CHR 0x93] @ '' ] ''"
  "utf8_str (label_cps (0x6A19, 0x8B58)) = ''[ '' @ [CHR 0xE6, CHR 0xA8, CHR 0x99, CHR 0xE8, CHR 0xAD, CHR 0x98] @ '' ] ''"
  "utf8_str (label_cps (0x7FA4, 0x7EC4)) = ''[ '' @ [CHR 0xE7, CHR 0xBE, CHR 0xA4, CHR 0xE7, CHR 0xBB, CHR 0x84] @ '' ] ''"
  "utf8_str (label_cps (0x7528, 0x6237)) = ''[ '' @ [CHR 0xE7, CHR 0x94, CHR 0xA8, CHR 0xE6, CHR 0x88, CHR 0xB7] @ '' ] ''"
  "utf8_str (label_cps (0x4FE1, 0x606F)) = ''[ '' @ [CHR 0xE4, CHR 0xBF, CHR 0xA1, CHR 0xE6, CHR 0x81, CHR 0xAF] @ '' ] ''"
  "utf8_str (label_cps (0x65F6, 0x95F4)) = ''[ '' @ [CHR 0xE6, CHR 0x97, CHR 0xB6, CHR 0xE9, CHR 0x97, CHR 0xB4] @ '' ] ''"
  "utf8_str (label_cps (0x6807, 0x8BC6)) = ''[ '' @ [CHR 0xE6, CHR 0xA0, CHR 0x87, CHR 0xE8, CHR 0xAF, CHR 0x86] @ '' ] ''"
  by (simp_all add: utf8_str_def label_cps_def utf8_enc_def char_of_def bit_0)

lemma utf8_str_line:
  "utf8_str (line_cps ab body) = utf8_str (label_cps ab) @ utf8_str body @ [CHR 0x0A]"
  by (simp add: line_cps_def utf8_str_append) (simp add: utf8_str_def utf8_enc_def char_of_def bit_0)

lemma zh_string:
  assumes "l \<in> {zh_CN, zh_HK}"
  shows "to_locale_string l
      \<lparr>m_title = utf8_str t, m_sender = utf8_str s, m_txt = utf8_str x, m_tstamp = utf8_str d,
       m_id = k\<rparr> =
    utf8_str (concat (map2 line_cps (zh_labels l)
      [t, s, x, d, map of_char (show_nat (unat k))]))"
  using assms
  by (auto simp: to_locale_string_def zh_labels_def utf8_str_append utf8_str_line utf8_str_label
      ascii_is_utf8(1) [OF show_nat_ascii] lang_defs)

lemma scalar_line: "list_all is_scalar body \<Longrightarrow> ab \<in> set (zh_labels l) \<Longrightarrow> list_all is_scalar (line_cps ab body)"
  by (auto simp: line_cps_def label_cps_def zh_labels_def is_scalar_def split: if_splits)

lemma units_line:
  "fst ab < 0x10000 \<Longrightarrow> snd ab < 0x10000 \<Longrightarrow>
   utf16_units (line_cps ab body) =
     0x5B # 0x20 # word_of_nat (fst ab) # word_of_nat (snd ab) # 0x20 # 0x5D # 0x20 #
     utf16_units body @ [0x0A]"
  by (simp add: line_cps_def label_cps_def utf16_units_append)
    (simp add: utf16_units_def utf16_enc_def)

lemma decor_at_memI:
  "get_endi_chat l u i = Some n \<or> get_endi_sender l u i = Some n \<or> get_endi_content l u i = Some n \<or>
   get_endi_date l u i = Some n \<or> get_endi_id l u i = Some n \<Longrightarrow>
   (i, n + 1) \<in> set (decor_at l u i)"
  by (auto simp: decor_at_def)

lemma zh_distinct: "zh_CN \<noteq> zh_HK"
  by (simp add: lang_defs)

lemma label_hit:
  assumes "l \<in> {zh_CN, zh_HK}" and "ab \<in> set (zh_labels l)"
  shows "(length pre, 6) \<in> set (decor_at l (pre @ utf16_units (line_cps ab body) @ post) (length pre))"
proof -
  have "(length pre, 5 + 1) \<in> set (decor_at l (pre @ utf16_units (line_cps ab body) @ post) (length pre))"
    using assms
    by (intro decor_at_memI)
      (auto simp: zh_labels_def units_line hit_zh_HK hit_zh_CN zh_distinct split: if_splits)
  then show ?thesis by simp
qed

text \<open>
  C37: In the two Chinese host languages every one of the five labels of a rendered message is
  decorated, at the UTF-16 offset where its line starts and over its six units, for any fields that
  are well-formed UTF-8.
\<close>

theorem decor_zh_labels:
  assumes "l \<in> {zh_CN, zh_HK}"
    and "list_all is_scalar t" and "list_all is_scalar s" and "list_all is_scalar x"
    and "list_all is_scalar d"
  shows "let tu = length (utf16_units t); su = length (utf16_units s);
             xu = length (utf16_units x); du = length (utf16_units d)
         in {(0, 6), (8 + tu, 6), (16 + tu + su, 6), (24 + tu + su + xu, 6),
             (32 + tu + su + xu + du, 6)} \<subseteq>
            set (get_decor_pos l (to_locale_string l
              \<lparr>m_title = utf8_str t, m_sender = utf8_str s, m_txt = utf8_str x,
               m_tstamp = utf8_str d, m_id = k\<rparr>))"
proof -
  obtain a b c e f where labs: "zh_labels l = [a, b, c, e, f]"
    by (cases "l = zh_HK") (simp_all add: zh_labels_def)
  let ?i = "map (of_char :: char \<Rightarrow> nat) (show_nat (unat k))"
  let ?cps = "line_cps a t @ line_cps b s @ line_cps c x @ line_cps e d @ line_cps f ?i"
  have i: "list_all is_scalar ?i" by (rule ascii_is_utf8(2) [OF show_nat_ascii])
  have valid: "list_all is_scalar ?cps"
    using assms i scalar_line [of _ _ l] by (simp add: labs)
  let ?u = "utf16_units ?cps"
  have all: "set (decor_at l ?u j) \<subseteq> set (get_decor_pos l (utf8_str ?cps))" if "j < length ?u" for j
    using assms(1) that
    by (auto simp: get_decor_pos_def decor_units_valid [OF valid] lang_defs)
  have sub: "p \<in> set (get_decor_pos l (utf8_str ?cps))" if "p \<in> set (decor_at l ?u (fst p))" for p
  proof -
    have "fst p < length ?u" using that decor_at_range [of "fst p" "snd p" l ?u "fst p"] by simp
    then show ?thesis using that all by blast
  qed
  have small: "fst ab < 0x10000 \<and> snd ab < 0x10000" if "ab \<in> {a, b, c, e, f}" for ab
    using that labs by (auto simp: zh_labels_def split: if_splits)
  then have len: "length (utf16_units (line_cps ab body)) = 8 + length (utf16_units body)"
    if "ab \<in> {a, b, c, e, f}" for ab body
    using that by (subst units_line) auto
  note hit = label_hit [OF assms(1), unfolded labs]
  have "(0, 6) \<in> set (decor_at l ?u 0)"
    using hit [of a "[]"] by (simp add: utf16_units_append)
  moreover have "(8 + length (utf16_units t), 6) \<in> set (decor_at l ?u (8 + length (utf16_units t)))"
    using hit [of b "utf16_units (line_cps a t)"] by (simp add: utf16_units_append len)
  moreover have "(16 + length (utf16_units t) + length (utf16_units s), 6) \<in>
      set (decor_at l ?u (16 + length (utf16_units t) + length (utf16_units s)))"
    using hit [of c "utf16_units (line_cps a t @ line_cps b s)"]
    by (simp add: utf16_units_append len ac_simps)
  moreover have "(24 + length (utf16_units t) + length (utf16_units s) + length (utf16_units x), 6) \<in>
      set (decor_at l ?u (24 + length (utf16_units t) + length (utf16_units s) + length (utf16_units x)))"
    using hit [of e "utf16_units (line_cps a t @ line_cps b s @ line_cps c x)"]
    by (simp add: utf16_units_append len ac_simps)
  moreover have "(32 + length (utf16_units t) + length (utf16_units s) + length (utf16_units x) +
        length (utf16_units d), 6) \<in>
      set (decor_at l ?u (32 + length (utf16_units t) + length (utf16_units s) +
        length (utf16_units x) + length (utf16_units d)))"
    using hit [of f "utf16_units (line_cps a t @ line_cps b s @ line_cps c x @ line_cps e d)" ?i "[]"]
    by (simp add: utf16_units_append len ac_simps)
  ultimately show ?thesis
    using zh_string [OF assms(1), of t s x d k] sub by (simp add: labs Let_def)
qed

lemma decor_zh_labels_witness:
  "{(0, 6), (10, 6)} \<subseteq>
     set (get_decor_pos zh_CN (to_locale_string zh_CN
       \<lparr>m_title = utf8_str [0x48, 0x69], m_sender = utf8_str [0x1F4A1], m_txt = utf8_str [0x21],
        m_tstamp = utf8_str [0x30], m_id = 7\<rparr>))"
  using decor_zh_labels [of zh_CN "[0x48, 0x69]" "[0x1F4A1]" "[0x21]" "[0x30]" 7]
  by (simp add: is_scalar_def utf16_units_def utf16_enc_def Let_def)

lemma no_bracket_no_endi:
  assumes "l \<notin> {zh_CN, zh_HK}" and "0x5B \<notin> set u"
  shows "decor_at l u i = []"
proof -
  have "k < length u \<Longrightarrow> u ! k \<noteq> 0x5B" for k using assms(2) nth_mem by metis
  then have nth: "i + n < length u \<Longrightarrow> k \<le> n \<Longrightarrow> u ! (i + k) \<noteq> 0x5B" for n k by simp
  show ?thesis
    using assms(1) nth [of 4 3] nth [of 3 2]
    by (auto simp: decor_at_def endi_defs endi_lang_defs split: if_splits)
qed

lemma units_no_bracket:
  assumes "list_all is_scalar cps" and "0x5B \<notin> set cps"
  shows "0x5B \<notin> set (utf16_units cps)"
proof -
  have "0x5B \<notin> set (utf16_enc cp)" if "is_scalar cp" "cp \<noteq> 0x5B" for cp
  proof -
    have w: "n = 0x5B" if "(word_of_nat n :: u16) = 0x5B" "n < 0x10000" for n
    proof -
      from that(1) have "unat (word_of_nat n :: u16) = 0x5B" by simp
      with that(2) show ?thesis by (simp add: unsigned_of_nat take_bit_eq_mod)
    qed
    have hi: "(word_of_nat (c + m) :: u16) \<noteq> 0x5B" if "0xD800 \<le> c" "c \<le> 0xDC00" "m < 0x400" for c m
      using w [of "c + m"] that by (auto simp del: of_nat_add)
    have "(cp - 0x10000) div 0x400 < 0x400"
      using that(1) unfolding is_scalar_def by linarith
    then show ?thesis
      using that(2) w [of cp] hi [of "0xD800" "(cp - 0x10000) div 0x400"]
        hi [of "0xDC00" "(cp - 0x10000) mod 0x400"]
      by (auto simp: utf16_enc_def simp del: of_nat_add of_nat_numeral)
  qed
  with assms show ?thesis by (auto simp: utf16_units_def list_all_iff)
qed

text \<open>
  In the English host languages the labels that the program itself writes are never decorated:
  a rendered message whose fields hold no left bracket has no decoration at all, because the
  recognisers look for a left bracket where the rendering writes a vertical bar.
\<close>

theorem decor_en_never:
  assumes "l \<in> {en_AU, en_GB, en_HK, en_US}"
    and "list_all (\<lambda>cp. is_scalar cp \<and> cp \<noteq> 0x5B) (t @ s @ x @ d)"
  shows "get_decor_pos l (to_locale_string l
           \<lparr>m_title = utf8_str t, m_sender = utf8_str s, m_txt = utf8_str x,
            m_tstamp = utf8_str d, m_id = k\<rparr>) = []"
proof -
  let ?i = "map (of_char :: char \<Rightarrow> nat) (show_nat (unat k))"
  let ?cps = "[0x1F4A1, 0x20, 0x7C, 0x20] @ t @ [0x0A, 0x2709, 0x20, 0x7C, 0x20] @ s @
    [0x0A, 0x1F4AC, 0x20, 0x7C, 0x20] @ x @ [0x0A, 0x1F554, 0x20, 0x7C, 0x20] @ d @
    [0x0A, 0x267E, 0x20, 0x7C, 0x20] @ ?i @ [0x0A]"
  have nl: "l \<notin> {zh_CN, zh_HK}" using assms(1) by (auto simp: lang_defs)
  have i: "list_all is_scalar ?i" by (rule ascii_is_utf8(2) [OF show_nat_ascii])
  have ib: "0x5B \<notin> set ?i"
    using show_nat_digits [of "unat k"] by (auto simp: list_all_iff is_digit_def)
  have lits: "utf8_str [0x1F4A1, 0x20, 0x7C, 0x20] = [CHR 0xF0, CHR 0x9F, CHR 0x92, CHR 0xA1] @ '' | ''"
    "utf8_str [0x0A, 0x2709, 0x20, 0x7C, 0x20] = [CHR 0x0A, CHR 0xE2, CHR 0x9C, CHR 0x89] @ '' | ''"
    "utf8_str [0x0A, 0x1F4AC, 0x20, 0x7C, 0x20] =
       [CHR 0x0A, CHR 0xF0, CHR 0x9F, CHR 0x92, CHR 0xAC] @ '' | ''"
    "utf8_str [0x0A, 0x1F554, 0x20, 0x7C, 0x20] =
       [CHR 0x0A, CHR 0xF0, CHR 0x9F, CHR 0x95, CHR 0x94] @ '' | ''"
    "utf8_str [0x0A, 0x267E, 0x20, 0x7C, 0x20] = [CHR 0x0A, CHR 0xE2, CHR 0x99, CHR 0xBE] @ '' | ''"
    "utf8_str [0x0A] = [CHR 0x0A]"
    by (simp_all add: utf8_str_def utf8_enc_def char_of_def bit_0)
  have str: "to_locale_string l
      \<lparr>m_title = utf8_str t, m_sender = utf8_str s, m_txt = utf8_str x, m_tstamp = utf8_str d,
       m_id = k\<rparr> = utf8_str ?cps"
    using nl by (simp only: utf8_str_append lits ascii_is_utf8(1) [OF show_nat_ascii])
      (simp add: to_locale_string_def)
  have valid: "list_all is_scalar ?cps"
    using assms(2) i by (auto simp: is_scalar_def list_all_iff)
  have "0x5B \<notin> set ?cps"
    using assms(2) ib by (auto simp: list_all_iff)
  from units_no_bracket [OF valid this]
  have "decor_at l (utf16_units ?cps) j = []" for j
    using no_bracket_no_endi [OF nl] by blast
  then show ?thesis
    unfolding str get_decor_pos_def decor_units_valid [OF valid] by simp
qed

lemma decor_en_never_witness:
  "get_decor_pos en_US (to_locale_string en_US
     \<lparr>m_title = utf8_str [0x48, 0x69], m_sender = utf8_str [0x7FA4], m_txt = utf8_str [0x21],
      m_tstamp = utf8_str [0x30], m_id = 0\<rparr>) = []"
  using decor_en_never [of en_US "[0x48, 0x69]" "[0x7FA4]" "[0x21]" "[0x30]" 0]
  by (simp add: is_scalar_def)

end
