(* ===== verification/Regex.thy ===== *)
theory Regex
  imports Strops
begin

text \<open>
  \<open>src/src/posix_regex.hh\<close> and \<open>posix_regex.cc\<close>: the wrapper around POSIX extended
  regular expressions. The regular-expression engine itself is libc code outside the repository, so
  \<open>regcomp\<close>, \<open>regexec\<close> and \<open>regerror\<close> are a parameter, the record
  \<open>'re engine\<close>; \<open>'re\<close> is the compiled form behind \<open>regex_t *\<close>.
\<close>

section \<open>The libc engine\<close>

record 're engine =
  regcomp :: "string \<Rightarrow> int \<times> 're"
  regexec :: "'re \<Rightarrow> string \<Rightarrow> int"
  regerror :: "int \<Rightarrow> string"

definition REG_NOMATCH :: int where
  "REG_NOMATCH = 1"

definition STAT_MOVED :: int where
  "STAT_MOVED = 2 ^ 31 - 1"

section \<open>PosixExtRegex\<close>

text \<open>
  \<open>re_of\<close> is \<open>None\<close> for the null pointer that the default constructor and a move
  leave behind.
\<close>

record 're PosixExtRegex =
  stat_comp :: int
  re_of :: "'re option"
  ptn :: string

definition regex_default :: "'re PosixExtRegex" where
  "regex_default = \<lparr>stat_comp = STAT_MOVED, re_of = None, ptn = []\<rparr>"

text \<open>The moving constructor: the new object and what is left in the source object.\<close>

definition regex_move :: "'re PosixExtRegex \<Rightarrow> 're PosixExtRegex \<times> 're PosixExtRegex" where
  "regex_move from =
     (\<lparr>stat_comp = stat_comp from, re_of = re_of from, ptn = ptn from\<rparr>,
      from\<lparr>stat_comp := STAT_MOVED, re_of := None, ptn := []\<rparr>)"

text \<open>The constructor from a pattern; \<open>regcomp\<close> reads the pattern as a C string.\<close>

definition regex_of :: "'re engine \<Rightarrow> string \<Rightarrow> 're PosixExtRegex" where
  "regex_of eng p =
     (let (st, re) = regcomp eng (c_str p)
      in \<lparr>stat_comp = st, re_of = Some re, ptn = p\<rparr>)"

text \<open>
  Moving assignment: the target, the source afterwards, and the compiled expression the target held
  before, which nothing frees.
\<close>

definition regex_move_assign ::
  "'re PosixExtRegex \<Rightarrow> 're PosixExtRegex \<Rightarrow>
     're PosixExtRegex \<times> 're PosixExtRegex \<times> 're option" where
  "regex_move_assign this from =
     (\<lparr>stat_comp = stat_comp from, re_of = re_of from, ptn = ptn from\<rparr>,
      from\<lparr>stat_comp := STAT_MOVED, re_of := None, ptn := []\<rparr>,
      re_of this)"

text \<open>The compiled expressions a destructor frees.\<close>

definition regex_dtor :: "'re PosixExtRegex \<Rightarrow> 're list" where
  "regex_dtor r = (case re_of r of None \<Rightarrow> [] | Some re \<Rightarrow> [re])"

definition is_pattern_accept :: "'re PosixExtRegex \<Rightarrow> bool" where
  "is_pattern_accept r = (stat_comp r = 0)"

definition get_err :: "'re engine \<Rightarrow> 're PosixExtRegex \<Rightarrow> string" where
  "get_err eng r = (if stat_comp r \<noteq> 0 then regerror eng (stat_comp r) @ [CHR 0x00] else [])"

text \<open>
  \<open>None\<close> for a pattern that did not compile. Any status of \<open>regexec\<close> other than
  \<open>REG_NOMATCH\<close> counts as a match. The inner \<open>None\<close> case (status 0 with a null
  pointer) cannot arise, see \<open>regex_ok\<close> below.
\<close>

definition is_match :: "'re engine \<Rightarrow> 're PosixExtRegex \<Rightarrow> string \<Rightarrow> bool option" where
  "is_match eng r s =
     (if stat_comp r \<noteq> 0 then None
      else case re_of r of
             None \<Rightarrow> None
           | Some re \<Rightarrow>
               (let stat_exec = regexec eng re (c_str s)
                in if stat_exec = REG_NOMATCH then Some False else Some True))"

text \<open>The class invariant: a successful status goes with a compiled expression.\<close>

definition regex_ok :: "'re PosixExtRegex \<Rightarrow> bool" where
  "regex_ok r = (stat_comp r = 0 \<longrightarrow> re_of r \<noteq> None)"

lemma regex_ok_default [wf_intros]: "regex_ok regex_default"
  by (simp add: regex_ok_def regex_default_def STAT_MOVED_def)

lemma regex_ok_of [wf_intros]: "regex_ok (regex_of eng p)"
  by (simp add: regex_ok_def regex_of_def split: prod.splits)

lemma regex_ok_move [wf_intros]:
  "regex_ok r \<Longrightarrow> regex_ok (fst (regex_move r)) \<and> regex_ok (snd (regex_move r))"
  by (simp add: regex_ok_def regex_move_def STAT_MOVED_def)

lemma ptn_regex_of [simp]: "ptn (regex_of eng p) = p"
  by (simp add: regex_of_def split: prod.splits)

lemma is_match_None_iff:
  "regex_ok r \<Longrightarrow> is_match eng r s = None \<longleftrightarrow> \<not> is_pattern_accept r"
  by (auto simp: is_match_def regex_ok_def is_pattern_accept_def Let_def split: option.splits)

text \<open>A move hands the compiled expression over: it is freed once, by the new owner.\<close>

lemma regex_move_frees_once:
  "regex_dtor (fst (regex_move r)) @ regex_dtor (snd (regex_move r)) = regex_dtor r"
  by (simp add: regex_move_def regex_dtor_def)

lemma regex_move_same: "fst (regex_move r) = r"
  by (simp add: regex_move_def)

end
