(* ===== verification/Filters.thy ===== *)
theory Filters
  imports Regex TgMsg
begin

text \<open>
  \<open>src/src/filter.hh\<close>: the focus filters. A filter holds six lists of regular expressions;
  a group is the ordered list of filters that a message runs through. The editing operations are
  those the chat commands call. \<open>eng\<close> is the regular-expression engine of \<open>Regex\<close>.
\<close>

section \<open>One filter\<close>

datatype FocusDecision = Accept | Skip | Reject

record 're Filter =
  f_titles :: "'re PosixExtRegex list"
  f_no_titles :: "'re PosixExtRegex list"
  f_senders :: "'re PosixExtRegex list"
  f_no_senders :: "'re PosixExtRegex list"
  f_keywords :: "'re PosixExtRegex list"
  f_no_keywords :: "'re PosixExtRegex list"

definition empty_filter :: "'re Filter" where
  "empty_filter =
     \<lparr>f_titles = [], f_no_titles = [], f_senders = [], f_no_senders = [], f_keywords = [],
      f_no_keywords = []\<rparr>"

text \<open>
  Move construction and assignment: the object that receives the patterns, and what is left of the
  other one, whose vectors are empty afterwards.
\<close>

definition move_Filter :: "'re Filter \<Rightarrow> 're Filter \<times> 're Filter" where
  "move_Filter other = (other, empty_filter)"

definition move_assign_Filter :: "'re Filter \<Rightarrow> 're Filter \<Rightarrow> 're Filter \<times> 're Filter" where
  "move_assign_Filter this other =
     (this\<lparr>f_titles := f_titles other, f_no_titles := f_no_titles other, f_senders := f_senders other,
        f_no_senders := f_no_senders other, f_keywords := f_keywords other,
        f_no_keywords := f_no_keywords other\<rparr>, empty_filter)"

text \<open>Assigning leaves nothing of what the object held before.\<close>

lemma move_assign_Filter_eq: "move_assign_Filter this other = move_Filter other"
  by (simp add: move_assign_Filter_def move_Filter_def)

text \<open>The loop that the six matchers share.\<close>

fun any_match :: "'re engine \<Rightarrow> 're PosixExtRegex list \<Rightarrow> string \<Rightarrow> bool" where
  "any_match eng [] input = False"
| "any_match eng (re # res) input =
     (case is_match eng re input of
        Some flag \<Rightarrow> if flag then True else any_match eng res input
      | None \<Rightarrow> any_match eng res input)"

definition mtch_titles :: "'re engine \<Rightarrow> 're Filter \<Rightarrow> string \<Rightarrow> bool" where
  "mtch_titles eng f input =
     (if length (f_titles f) = 0 then True else any_match eng (f_titles f) input)"

definition mtch_no_titles :: "'re engine \<Rightarrow> 're Filter \<Rightarrow> string \<Rightarrow> bool" where
  "mtch_no_titles eng f input = any_match eng (f_no_titles f) input"

definition mtch_keywords :: "'re engine \<Rightarrow> 're Filter \<Rightarrow> string \<Rightarrow> bool" where
  "mtch_keywords eng f input =
     (if length (f_keywords f) = 0 then True else any_match eng (f_keywords f) input)"

definition mtch_no_keywords :: "'re engine \<Rightarrow> 're Filter \<Rightarrow> string \<Rightarrow> bool" where
  "mtch_no_keywords eng f input =
     (if length (f_no_keywords f) = 0 then False else any_match eng (f_no_keywords f) input)"

definition mtch_senders :: "'re engine \<Rightarrow> 're Filter \<Rightarrow> string \<Rightarrow> bool" where
  "mtch_senders eng f input =
     (if length (f_senders f) = 0 then True else any_match eng (f_senders f) input)"

definition mtch_no_senders :: "'re engine \<Rightarrow> 're Filter \<Rightarrow> string \<Rightarrow> bool" where
  "mtch_no_senders eng f input = any_match eng (f_no_senders f) input"

definition filter_mtch_tgmsg :: "'re engine \<Rightarrow> 're Filter \<Rightarrow> TgMsg \<Rightarrow> FocusDecision" where
  "filter_mtch_tgmsg eng f msg =
     (if mtch_no_titles eng f (m_title msg) then Reject
      else if mtch_no_senders eng f (m_sender msg) then Reject
      else if mtch_no_keywords eng f (m_txt msg) then Reject
      else if \<not> mtch_titles eng f (m_title msg) then Skip
      else if \<not> mtch_senders eng f (m_sender msg) then Skip
      else if \<not> mtch_keywords eng f (m_txt msg) then Skip
      else Accept)"

lemmas mtch_defs =
  mtch_titles_def mtch_no_titles_def mtch_keywords_def mtch_no_keywords_def mtch_senders_def
  mtch_no_senders_def

section \<open>Readable form\<close>

fun readable_loop :: "'re PosixExtRegex list \<Rightarrow> string" where
  "readable_loop [] = []"
| "readable_loop [el] = ''('' @ ptn el @ '')''"
| "readable_loop (el # els) = ''('' @ ptn el @ '')'' @ ''  '' @ readable_loop els"

definition readable_eles :: "'re PosixExtRegex list \<Rightarrow> string" where
  "readable_eles els = [CHR 0xE2, CHR 0xA4, CHR 0xB7] @ '' '' @ readable_loop els @ [CHR 0x0A]"

definition filter_as_readable :: "'re Filter \<Rightarrow> string" where
  "filter_as_readable f =
     [CHR 0x0A] @
     [CHR 0xF0, CHR 0x9F, CHR 0x9E, CHR 0x86] @ '' Titles <titles>'' @ [CHR 0x0A] @ readable_eles (f_titles f) @
     [CHR 0xF0, CHR 0x9F, CHR 0x9E, CHR 0x86] @ '' Senders <senders>'' @ [CHR 0x0A] @ readable_eles (f_senders f) @
     [CHR 0xF0, CHR 0x9F, CHR 0x9E, CHR 0x86] @ '' Keywords <keywords>'' @ [CHR 0x0A] @ readable_eles (f_keywords f) @
     [CHR 0xF0, CHR 0x9F, CHR 0x9E, CHR 0x86] @ '' NO Titles <no-titles>'' @ [CHR 0x0A] @ readable_eles (f_no_titles f) @
     [CHR 0xF0, CHR 0x9F, CHR 0x9E, CHR 0x86] @ '' NO Senders <no-senders>'' @ [CHR 0x0A] @ readable_eles (f_no_senders f) @
     [CHR 0xF0, CHR 0x9F, CHR 0x9E, CHR 0x86] @ '' NO Keywords <no-keywords>'' @ [CHR 0x0A] @ readable_eles (f_no_keywords f)"

section \<open>The group\<close>

datatype FilterProperty =
    FilterPropertyTitles
  | FilterPropertyNoTitles
  | FilterPropertyKeywords
  | FilterPropertyNoKeywords
  | FilterPropertySenders
  | FilterPropertyNoSenders

record 're FilterGroup =
  i_prev_visited :: nat
  filters :: "'re Filter list"

text \<open>
  The loop of \<open>FilterGroup::mtch_tgmsg\<close> over the filters, with the counter
  \<open>i_prev_visited_\<close>.
\<close>

fun mtch_loop :: "'re engine \<Rightarrow> 're Filter list \<Rightarrow> TgMsg \<Rightarrow> nat \<Rightarrow> bool \<times> nat" where
  "mtch_loop eng [] msg i = (False, i)"
| "mtch_loop eng (f # fs) msg i =
     (if filter_mtch_tgmsg eng f msg = Accept then (True, i)
      else if filter_mtch_tgmsg eng f msg = Reject then (False, i)
      else mtch_loop eng fs msg (i + 1))"

definition group_mtch_tgmsg ::
  "'re engine \<Rightarrow> 're FilterGroup \<Rightarrow> TgMsg \<Rightarrow> bool \<times> 're FilterGroup" where
  "group_mtch_tgmsg eng g msg =
     (let (r, i) = mtch_loop eng (filters g) msg 0 in (r, g\<lparr>i_prev_visited := i\<rparr>))"

fun readable_filters :: "nat \<Rightarrow> 're Filter list \<Rightarrow> string" where
  "readable_filters i [] = []"
| "readable_filters i (el # els) =
     [CHR 0x0A] @ [CHR 0xF0, CHR 0x9F, CHR 0x9E, CHR 0x86] @ '' '' @ [CHR 0xF0, CHR 0x9F, CHR 0x9E, CHR 0x86] @ '' '' @ [CHR 0xF0, CHR 0x9F, CHR 0x9E, CHR 0x86] @ '' '' @ [CHR 0xF0, CHR 0x9F, CHR 0x9E, CHR 0x86] @ '' '' @ [CHR 0xF0, CHR 0x9F, CHR 0x9E, CHR 0x86] @ '' '' @
     ''FILTER '' @ show_nat (i + 1) @ '' '' @ [CHR 0xF0, CHR 0x9F, CHR 0x9E, CHR 0x86] @ '' '' @ [CHR 0xF0, CHR 0x9F, CHR 0x9E, CHR 0x86] @ '' '' @ [CHR 0xF0, CHR 0x9F, CHR 0x9E, CHR 0x86] @ '' '' @ [CHR 0xF0, CHR 0x9F, CHR 0x9E, CHR 0x86] @ '' '' @ [CHR 0xF0, CHR 0x9F, CHR 0x9E, CHR 0x86, CHR 0x0A] @
     [CHR 0xF0, CHR 0x9F, CHR 0x9E, CHR 0x86] @ filter_as_readable el @ readable_filters (i + 1) els"

definition group_as_readable :: "'re FilterGroup \<Rightarrow> string" where
  "group_as_readable g = readable_filters 0 (filters g)"

section \<open>Editing a group\<close>

text \<open>
  Each operation returns the C++ result, the reference parameter \<open>which_filter\<close> as the code
  leaves it, and the group. \<open>Undef\<close> is an access outside the vector. Sizes are below
  \<open>2 ^ 32\<close>, see \<open>group_ok\<close>.
\<close>

type_synonym 're edit_result = "(bool \<times> u32 \<times> 're FilterGroup) res"

definition insert_at :: "nat \<Rightarrow> 'a \<Rightarrow> 'a list \<Rightarrow> 'a list" where
  "insert_at i x xs = take i xs @ x # drop i xs"

definition ins_filter ::
  "'re engine \<Rightarrow> u32 \<Rightarrow> 're Filter option \<Rightarrow> 're FilterGroup \<Rightarrow> 're edit_result" where
  "ins_filter eng which_filter f g =
     (let idx0 = sint (which_filter - 1); fs = filters g
      in if idx0 < 0 then Ok (False, which_filter, g)
         else
           (let idx = (if nat idx0 > length fs then length fs else nat idx0);
                new = (case f of
                         Some v \<Rightarrow> v
                       | None \<Rightarrow> empty_filter\<lparr>f_keywords := [regex_of eng ''tg-focus'']\<rparr>)
            in Ok (True, word_of_nat (idx + 1), g\<lparr>filters := insert_at idx new fs\<rparr>)))"

definition rm_filter :: "u32 \<Rightarrow> 're FilterGroup \<Rightarrow> 're edit_result" where
  "rm_filter which_filter g =
     (let idx = unat (which_filter - 1); fs = filters g
      in if length fs = 1 \<or> idx > size_t_sub (length fs) 1 then Ok (False, which_filter, g)
         else if idx \<ge> length fs then Undef
         else Ok (True, which_filter, g\<lparr>filters := take idx fs @ drop (idx + 1) fs\<rparr>))"

fun prop_list :: "FilterProperty \<Rightarrow> 're Filter \<Rightarrow> 're PosixExtRegex list" where
  "prop_list FilterPropertyTitles f = f_titles f"
| "prop_list FilterPropertyNoTitles f = f_no_titles f"
| "prop_list FilterPropertyKeywords f = f_keywords f"
| "prop_list FilterPropertyNoKeywords f = f_no_keywords f"
| "prop_list FilterPropertySenders f = f_senders f"
| "prop_list FilterPropertyNoSenders f = f_no_senders f"

fun set_prop_list :: "FilterProperty \<Rightarrow> 're PosixExtRegex list \<Rightarrow> 're Filter \<Rightarrow> 're Filter" where
  "set_prop_list FilterPropertyTitles l f = f\<lparr>f_titles := l\<rparr>"
| "set_prop_list FilterPropertyNoTitles l f = f\<lparr>f_no_titles := l\<rparr>"
| "set_prop_list FilterPropertyKeywords l f = f\<lparr>f_keywords := l\<rparr>"
| "set_prop_list FilterPropertyNoKeywords l f = f\<lparr>f_no_keywords := l\<rparr>"
| "set_prop_list FilterPropertySenders l f = f\<lparr>f_senders := l\<rparr>"
| "set_prop_list FilterPropertyNoSenders l f = f\<lparr>f_no_senders := l\<rparr>"

definition add_one ::
  "'re engine \<Rightarrow> u32 \<Rightarrow> FilterProperty \<Rightarrow> string \<Rightarrow> 're FilterGroup \<Rightarrow> 're edit_result" where
  "add_one eng which_filter p v g =
     (if which_filter < 1 then Ok (True, which_filter, g)
      else
        (let idx0 = unat (which_filter - 1);
             grow = (idx0 > size_t_sub (length (filters g)) 1);
             fs = (if grow then filters g @ [empty_filter] else filters g);
             idx = (if grow then length fs - 1 else idx0);
             which' = (if grow then word_of_nat (length fs) else which_filter);
             may_re = regex_of eng v
         in if \<not> is_pattern_accept may_re then Ok (True, which', g\<lparr>filters := fs\<rparr>)
            else if idx \<ge> length fs then Undef
            else Ok (True, which',
                   g\<lparr>filters :=
                       fs[idx := set_prop_list p (prop_list p (fs ! idx) @ [may_re]) (fs ! idx)]\<rparr>)))"

fun erase_first_ptn :: "string \<Rightarrow> 're PosixExtRegex list \<Rightarrow> 're PosixExtRegex list" where
  "erase_first_ptn v [] = []"
| "erase_first_ptn v (re # res) = (if ptn re = v then res else re # erase_first_ptn v res)"

definition del_one ::
  "'re engine \<Rightarrow> u32 \<Rightarrow> FilterProperty \<Rightarrow> string \<Rightarrow> 're FilterGroup \<Rightarrow> 're edit_result" where
  "del_one eng which_filter p v g =
     (if which_filter < 1 then Ok (False, which_filter, g)
      else
        (let idx0 = unat (which_filter - 1); fs = filters g;
             clamp = (idx0 > size_t_sub (length fs) 1);
             idx = (if clamp then length fs - 1 else idx0);
             which' = (if clamp then word_of_nat (length fs) else which_filter);
             may_re = regex_of eng v
         in if \<not> is_pattern_accept may_re then Ok (False, which', g)
            else if idx \<ge> length fs then Undef
            else Ok (True, which',
                   g\<lparr>filters :=
                       fs[idx := set_prop_list p (erase_first_ptn v (prop_list p (fs ! idx)))
                                   (fs ! idx)]\<rparr>)))"

definition add_titles :: "'re engine \<Rightarrow> u32 \<Rightarrow> string \<Rightarrow> 're FilterGroup \<Rightarrow> 're edit_result" where
  "add_titles eng which_filter v g = add_one eng which_filter FilterPropertyTitles v g"

definition del_titles :: "'re engine \<Rightarrow> u32 \<Rightarrow> string \<Rightarrow> 're FilterGroup \<Rightarrow> 're edit_result" where
  "del_titles eng which_filter v g = del_one eng which_filter FilterPropertyTitles v g"

definition add_no_titles :: "'re engine \<Rightarrow> u32 \<Rightarrow> string \<Rightarrow> 're FilterGroup \<Rightarrow> 're edit_result" where
  "add_no_titles eng which_filter v g = add_one eng which_filter FilterPropertyNoTitles v g"

definition del_no_titles :: "'re engine \<Rightarrow> u32 \<Rightarrow> string \<Rightarrow> 're FilterGroup \<Rightarrow> 're edit_result" where
  "del_no_titles eng which_filter v g = del_one eng which_filter FilterPropertyNoTitles v g"

definition add_senders :: "'re engine \<Rightarrow> u32 \<Rightarrow> string \<Rightarrow> 're FilterGroup \<Rightarrow> 're edit_result" where
  "add_senders eng which_filter v g = add_one eng which_filter FilterPropertySenders v g"

definition del_senders :: "'re engine \<Rightarrow> u32 \<Rightarrow> string \<Rightarrow> 're FilterGroup \<Rightarrow> 're edit_result" where
  "del_senders eng which_filter v g = del_one eng which_filter FilterPropertySenders v g"

definition add_no_senders :: "'re engine \<Rightarrow> u32 \<Rightarrow> string \<Rightarrow> 're FilterGroup \<Rightarrow> 're edit_result" where
  "add_no_senders eng which_filter v g = add_one eng which_filter FilterPropertyNoSenders v g"

definition del_no_senders :: "'re engine \<Rightarrow> u32 \<Rightarrow> string \<Rightarrow> 're FilterGroup \<Rightarrow> 're edit_result" where
  "del_no_senders eng which_filter v g = del_one eng which_filter FilterPropertyNoSenders v g"

definition add_keywords :: "'re engine \<Rightarrow> u32 \<Rightarrow> string \<Rightarrow> 're FilterGroup \<Rightarrow> 're edit_result" where
  "add_keywords eng which_filter v g = add_one eng which_filter FilterPropertyKeywords v g"

definition del_keywords :: "'re engine \<Rightarrow> u32 \<Rightarrow> string \<Rightarrow> 're FilterGroup \<Rightarrow> 're edit_result" where
  "del_keywords eng which_filter v g = del_one eng which_filter FilterPropertyKeywords v g"

definition add_no_keywords :: "'re engine \<Rightarrow> u32 \<Rightarrow> string \<Rightarrow> 're FilterGroup \<Rightarrow> 're edit_result" where
  "add_no_keywords eng which_filter v g = add_one eng which_filter FilterPropertyNoKeywords v g"

definition del_no_keywords :: "'re engine \<Rightarrow> u32 \<Rightarrow> string \<Rightarrow> 're FilterGroup \<Rightarrow> 're edit_result" where
  "del_no_keywords eng which_filter v g = del_one eng which_filter FilterPropertyNoKeywords v g"

section \<open>Decisions\<close>

text \<open>Some valid expression of the list matches.\<close>

definition hits :: "'re engine \<Rightarrow> 're PosixExtRegex list \<Rightarrow> string \<Rightarrow> bool" where
  "hits eng res input = (\<exists>re \<in> set res. is_match eng re input = Some True)"

lemma any_match_hits: "any_match eng res input = hits eng res input"
  by (induction res) (auto simp: hits_def split: option.splits)

text \<open>
  C5: The decision of one filter: a message is rejected exactly when a valid exclusion pattern
  matches its title, sender or text; it is accepted exactly when none does and each of the three
  positive lists is empty or has a valid matching pattern; everything else is skipped.
\<close>

theorem filter_decision:
  "(filter_mtch_tgmsg eng f msg = Reject \<longleftrightarrow>
      hits eng (f_no_titles f) (m_title msg) \<or> hits eng (f_no_senders f) (m_sender msg) \<or>
      hits eng (f_no_keywords f) (m_txt msg)) \<and>
   (filter_mtch_tgmsg eng f msg = Accept \<longleftrightarrow>
      \<not> (hits eng (f_no_titles f) (m_title msg) \<or> hits eng (f_no_senders f) (m_sender msg) \<or>
         hits eng (f_no_keywords f) (m_txt msg)) \<and>
      (f_titles f = [] \<or> hits eng (f_titles f) (m_title msg)) \<and>
      (f_senders f = [] \<or> hits eng (f_senders f) (m_sender msg)) \<and>
      (f_keywords f = [] \<or> hits eng (f_keywords f) (m_txt msg)))"
  by (auto simp: filter_mtch_tgmsg_def mtch_defs any_match_hits) (auto simp: hits_def)

lemma mtch_loop_spec:
  "mtch_loop eng fs msg i =
     (case find (\<lambda>f. filter_mtch_tgmsg eng f msg \<noteq> Skip) fs of
        None \<Rightarrow> False | Some f \<Rightarrow> filter_mtch_tgmsg eng f msg = Accept,
      i + length (takeWhile (\<lambda>f. filter_mtch_tgmsg eng f msg = Skip) fs))"
proof (induction fs arbitrary: i)
  case (Cons f fs)
  then show ?case by (cases "filter_mtch_tgmsg eng f msg") auto
qed simp

text \<open>
  C2: A group decides by its first filter that does not skip the message: the message is accepted
  exactly when there is such a filter and it accepts. \<open>i_prev_visited\<close> is then the number of
  filters skipped before it, and the filters themselves are untouched.
\<close>

theorem group_first_decisive:
  "(fst (group_mtch_tgmsg eng g msg) \<longleftrightarrow>
      (\<exists>f. find (\<lambda>f. filter_mtch_tgmsg eng f msg \<noteq> Skip) (filters g) = Some f \<and>
           filter_mtch_tgmsg eng f msg = Accept)) \<and>
   i_prev_visited (snd (group_mtch_tgmsg eng g msg)) =
     length (takeWhile (\<lambda>f. filter_mtch_tgmsg eng f msg = Skip) (filters g)) \<and>
   filters (snd (group_mtch_tgmsg eng g msg)) = filters g"
  by (simp add: group_mtch_tgmsg_def mtch_loop_spec split: option.splits)

lemma empty_filter_accepts: "filter_mtch_tgmsg eng empty_filter msg = Accept"
  by (simp add: filter_mtch_tgmsg_def mtch_defs empty_filter_def)

section \<open>Editing\<close>

lemma prop_list_set [simp]:
  "prop_list p (set_prop_list q l f) = (if p = q then l else prop_list p f)"
  by (cases p; cases q; simp)

lemma set_prop_list_same [simp]: "set_prop_list p (prop_list p f) f = f"
  by (cases p; simp)

lemma set_prop_list_twice [simp]: "set_prop_list p l (set_prop_list p l' f) = set_prop_list p l f"
  by (cases p; simp)

lemma prop_list_empty [simp]: "prop_list p empty_filter = []"
  by (cases p; simp add: empty_filter_def)

definition filter_ok :: "'re Filter \<Rightarrow> bool" where
  "filter_ok f =
     list_all regex_ok (f_titles f @ f_no_titles f @ f_senders f @ f_no_senders f @ f_keywords f @
                        f_no_keywords f)"

definition group_ok :: "'re FilterGroup \<Rightarrow> bool" where
  "group_ok g = (filters g \<noteq> [] \<and> list_all filter_ok (filters g))"

lemma filter_ok_iff: "filter_ok f \<longleftrightarrow> (\<forall>p. list_all regex_ok (prop_list p f))"
proof
  assume "filter_ok f"
  then show "\<forall>p. list_all regex_ok (prop_list p f)"
    by (intro allI, case_tac p) (simp_all add: filter_ok_def)
next
  assume all: "\<forall>p. list_all regex_ok (prop_list p f)"
  note all [rule_format, of FilterPropertyTitles] all [rule_format, of FilterPropertyNoTitles]
    all [rule_format, of FilterPropertySenders] all [rule_format, of FilterPropertyNoSenders]
    all [rule_format, of FilterPropertyKeywords] all [rule_format, of FilterPropertyNoKeywords]
  then show "filter_ok f" by (simp add: filter_ok_def)
qed

lemma filter_ok_empty [wf_intros]: "filter_ok empty_filter"
  by (simp add: filter_ok_iff)

lemma filter_ok_set [wf_intros]:
  "filter_ok f \<Longrightarrow> list_all regex_ok l \<Longrightarrow> filter_ok (set_prop_list p l f)"
  by (simp add: filter_ok_iff)

lemma erase_first_subset: "set (erase_first_ptn v l) \<subseteq> set l"
  by (induction l) auto

lemma list_all_update: "list_all P xs \<Longrightarrow> P y \<Longrightarrow> list_all P (xs[i := y])"
  using set_update_subset_insert [of xs i y] by (auto simp: list_all_iff)

lemma size_t_last:
  "xs \<noteq> [] \<Longrightarrow> length xs < 2 ^ 32 \<Longrightarrow> size_t_sub (length xs) 1 = length xs - 1"
  by (rule size_t_sub_eq) (cases xs; simp)+

text \<open>The commands that edit a group, and their common step.\<close>

datatype edit =
    EdIns u32
  | EdRm u32
  | EdAdd u32 FilterProperty string
  | EdDel u32 FilterProperty string

fun edit_step :: "'re engine \<Rightarrow> edit \<Rightarrow> 're FilterGroup \<Rightarrow> 're FilterGroup res" where
  "edit_step eng (EdIns n) g = res_map (snd \<circ> snd) (ins_filter eng n None g)"
| "edit_step eng (EdRm n) g = res_map (snd \<circ> snd) (rm_filter n g)"
| "edit_step eng (EdAdd n p v) g = res_map (snd \<circ> snd) (add_one eng n p v g)"
| "edit_step eng (EdDel n p v) g = res_map (snd \<circ> snd) (del_one eng n p v g)"

lemma ins_filter_ok:
  assumes "group_ok g" and "\<And>v. f = Some v \<Longrightarrow> filter_ok v"
  shows "\<exists>b w g'. ins_filter eng n f g = Ok (b, w, g') \<and> group_ok g' \<and>
           length (filters g') \<le> Suc (length (filters g))"
proof -
  have "filter_ok (case f of Some v \<Rightarrow> v | None \<Rightarrow> empty_filter\<lparr>f_keywords := [regex_of eng p]\<rparr>)" for p
    using assms(2) by (auto simp: filter_ok_def empty_filter_def regex_ok_of split: option.splits)
  then show ?thesis
    using assms(1)
    by (auto simp: ins_filter_def insert_at_def group_ok_def Let_def list_all_iff
        dest: in_set_takeD in_set_dropD)
qed

lemma rm_filter_ok:
  assumes "group_ok g" and "length (filters g) < 2 ^ 32"
  shows "\<exists>b w g'. rm_filter n g = Ok (b, w, g') \<and> group_ok g' \<and>
           length (filters g') \<le> length (filters g)"
proof -
  have sz: "size_t_sub (length (filters g)) 1 = length (filters g) - 1"
    using assms by (intro size_t_last) (simp_all add: group_ok_def)
  have ne: "0 < length (filters g)" using assms(1) by (simp add: group_ok_def)
  show ?thesis
  proof (cases "length (filters g) = 1 \<or> unat (n - 1) > length (filters g) - 1")
    case True
    then show ?thesis using assms(1) by (auto simp: rm_filter_def sz [simplified] Let_def)
  next
    case False
    then have i: "unat (n - 1) < length (filters g)" "1 < length (filters g)" using ne by linarith+
    then have "take (unat (n - 1)) (filters g) @ drop (unat (n - 1) + 1) (filters g) \<noteq> []"
      by auto
    with False i assms(1) show ?thesis
      by (auto simp: rm_filter_def sz [simplified] Let_def group_ok_def list_all_iff
          dest: in_set_takeD in_set_dropD)
  qed
qed

text \<open>What adding and deleting do, with the index arithmetic resolved.\<close>

lemma add_one_eq:
  assumes "filters g \<noteq> []" and "length (filters g) < 2 ^ 32" and "w \<noteq> 0"
  shows "add_one eng w p v g =
    (let n = unat w - 1; len = length (filters g);
         fs = (if n < len then filters g else filters g @ [empty_filter]);
         i = min n len
     in Ok (True, if n < len then w else word_of_nat (len + 1),
            g\<lparr>filters :=
               (if is_pattern_accept (regex_of eng v)
                then fs[i := set_prop_list p (prop_list p (fs ! i) @ [regex_of eng v]) (fs ! i)]
                else fs)\<rparr>))"
proof -
  have u: "unat (w - 1) = unat w - Suc 0" using assms(3) by (simp add: unat_minus_one)
  have z: "\<not> w < 1" using assms(3) by (simp add: word_less_nat_alt unat_eq_zero)
  obtain k where len: "length (filters g) = Suc k" using assms(1) by (cases "filters g") auto
  have sz: "size_t_sub (Suc k) (Suc 0) = k" using size_t_last [OF assms(1,2)] len by simp
  show ?thesis
  proof (cases "unat w - 1 < length (filters g)")
    case True
    with z show ?thesis by (auto simp: add_one_def sz u Let_def len min_def)
  next
    case False
    with z show ?thesis by (auto simp: add_one_def sz u Let_def not_less len min_def)
  qed
qed

lemma del_one_eq:
  assumes "filters g \<noteq> []" and "length (filters g) < 2 ^ 32" and "w \<noteq> 0"
  shows "del_one eng w p v g =
    (let n = unat w - 1; len = length (filters g); fs = filters g; i = min n (len - 1);
         w' = (if n < len then w else word_of_nat len)
     in if is_pattern_accept (regex_of eng v)
        then Ok (True, w',
               g\<lparr>filters := fs[i := set_prop_list p (erase_first_ptn v (prop_list p (fs ! i))) (fs ! i)]\<rparr>)
        else Ok (False, w', g))"
proof -
  have u: "unat (w - 1) = unat w - Suc 0" using assms(3) by (simp add: unat_minus_one)
  have z: "\<not> w < 1" using assms(3) by (simp add: word_less_nat_alt unat_eq_zero)
  obtain k where len: "length (filters g) = Suc k" using assms(1) by (cases "filters g") auto
  have sz: "size_t_sub (Suc k) (Suc 0) = k" using size_t_last [OF assms(1,2)] len by simp
  show ?thesis
  proof (cases "unat w - 1 < length (filters g)")
    case True
    with z show ?thesis by (auto simp: del_one_def sz u Let_def len min_def)
  next
    case False
    with z show ?thesis by (auto simp: del_one_def sz u Let_def not_less len min_def)
  qed
qed

lemma add_one_ok:
  assumes "group_ok g" and "length (filters g) < 2 ^ 32"
  shows "\<exists>b w' g'. add_one eng w p v g = Ok (b, w', g') \<and> group_ok g' \<and>
           length (filters g') \<le> Suc (length (filters g))"
proof (cases "w = 0")
  case True
  then show ?thesis using assms by (auto simp: add_one_def)
next
  case False
  have ne: "filters g \<noteq> []" using assms by (simp add: group_ok_def)
  have app: "filter_ok f \<Longrightarrow> filter_ok (set_prop_list p (prop_list p f @ [regex_of eng v]) f)" for f :: "'a Filter"
    by (rule filter_ok_set) (auto simp: filter_ok_iff regex_ok_of)
  let ?fs = "if unat w - 1 < length (filters g) then filters g else filters g @ [empty_filter]"
  have all: "list_all filter_ok ?fs" using assms by (simp add: group_ok_def filter_ok_empty)
  have i: "min (unat w - 1) (length (filters g)) < length ?fs" by (auto simp: min_def)
  then have "filter_ok (?fs ! min (unat w - 1) (length (filters g)))"
    using all by (simp only: list_all_length)
  from list_all_update [OF all app [OF this]] all ne show ?thesis
    by (simp only: add_one_eq [OF ne assms(2) False] Let_def) (auto simp: group_ok_def)
qed

lemma del_one_ok:
  assumes "group_ok g" and "length (filters g) < 2 ^ 32"
  shows "\<exists>b w' g'. del_one eng w p v g = Ok (b, w', g') \<and> group_ok g' \<and>
           length (filters g') = length (filters g)"
proof (cases "w = 0")
  case True
  then show ?thesis using assms by (auto simp: del_one_def)
next
  case False
  have ne: "filters g \<noteq> []" using assms by (simp add: group_ok_def)
  have er: "filter_ok f \<Longrightarrow> filter_ok (set_prop_list p (erase_first_ptn v (prop_list p f)) f)" for f :: "'a Filter"
    using erase_first_subset [of v "prop_list p f"]
    by (intro filter_ok_set) (auto simp: filter_ok_iff list_all_iff)
  have all: "list_all filter_ok (filters g)" using assms by (simp add: group_ok_def)
  have "min (unat w - 1) (length (filters g) - 1) < length (filters g)"
    using ne by (simp add: min_less_iff_disj)
  then have "filter_ok (filters g ! min (unat w - 1) (length (filters g) - 1))"
    using all by (simp only: list_all_length)
  from list_all_update [OF all er [OF this]] assms(1) ne show ?thesis
    by (simp only: del_one_eq [OF ne assms(2) False] Let_def) (auto simp: group_ok_def)
qed

interpretation edits: measured_ops group_ok "\<lambda>g. length (filters g)" "2 ^ 32" "edit_step eng" for eng
proof
  fix s and c
  assume g: "group_ok (s :: 'a FilterGroup)" and l: "length (filters s) < 2 ^ 32"
  show "\<exists>s'. edit_step eng c s = Ok s' \<and> group_ok s' \<and> length (filters s') \<le> Suc (length (filters s))"
  proof (cases c)
    case (EdIns n)
    with ins_filter_ok [OF g, of None eng n] show ?thesis by force
  next
    case (EdRm n)
    with rm_filter_ok [OF g l, of n] show ?thesis by force
  next
    case (EdAdd n p v)
    with add_one_ok [OF g l, of eng n p v] show ?thesis by force
  next
    case (EdDel n p v)
    with del_one_ok [OF g l, of eng n p v] show ?thesis by force
  qed
qed

text \<open>
  C14: However a non-empty group is edited, no access leaves the vector and the group stays
  non-empty with every stored expression well-formed: any sequence of edits, whatever the indexes
  and patterns, returns normally.
\<close>

theorem edits_never_undefined:
  assumes "group_ok g" and "length (filters g) + length cmds \<le> 2 ^ 32"
  shows "\<exists>g'. run_ops (edit_step eng) cmds g = Ok g' \<and> group_ok g'"
  using assms by (rule edits.run_ok)

lemma edits_never_undefined_witness:
  "\<exists>g'. run_ops (edit_step \<lparr>regcomp = \<lambda>p. (if p = ''['' then 7 else 0, p),
        regexec = \<lambda>r s. if r = s then 0 else 1, regerror = \<lambda>_. []\<rparr>)
      [EdRm 0, EdAdd 9 FilterPropertyTitles ''['', EdIns 4, EdDel 77 FilterPropertySenders ''x'']
      \<lparr>i_prev_visited = 0, filters = [empty_filter]\<rparr> = Ok g' \<and> group_ok g'"
  by (rule edits_never_undefined) (simp_all add: group_ok_def filter_ok_empty)

section \<open>Refinement to pattern tables\<close>

text \<open>
  Abstractly a group is a list of tables that give each property its patterns; compiled expressions
  are forgotten. \<open>accepts\<close> says which patterns compile.
\<close>

type_synonym table = "FilterProperty \<Rightarrow> string list"

definition pats_of :: "'re Filter \<Rightarrow> table" where
  "pats_of f = (\<lambda>p. map ptn (prop_list p f))"

definition pats :: "'re FilterGroup \<Rightarrow> table list" where
  "pats g = map pats_of (filters g)"

definition abs_ins :: "nat \<Rightarrow> table list \<Rightarrow> table list" where
  "abs_ins n ts =
     insert_at (min n (length ts)) ((\<lambda>_. [])(FilterPropertyKeywords := [''tg-focus''])) ts"

definition abs_rm :: "nat \<Rightarrow> table list \<Rightarrow> table list" where
  "abs_rm n ts =
     (if length ts = 1 \<or> n \<ge> length ts then ts else take n ts @ drop (n + 1) ts)"

definition abs_add :: "bool \<Rightarrow> nat \<Rightarrow> FilterProperty \<Rightarrow> string \<Rightarrow> table list \<Rightarrow> table list" where
  "abs_add ok n p v ts =
     (let ts' = (if n < length ts then ts else ts @ [\<lambda>_. []]); i = min n (length ts)
      in if ok then ts'[i := (ts' ! i)(p := (ts' ! i) p @ [v])] else ts')"

definition abs_del :: "bool \<Rightarrow> nat \<Rightarrow> FilterProperty \<Rightarrow> string \<Rightarrow> table list \<Rightarrow> table list" where
  "abs_del ok n p v ts =
     (let i = min n (length ts - 1)
      in if ok then ts[i := (ts ! i)(p := remove1 v ((ts ! i) p))] else ts)"

fun abs_edit :: "(string \<Rightarrow> bool) \<Rightarrow> edit \<Rightarrow> table list \<Rightarrow> table list" where
  "abs_edit accepts (EdIns n) ts = (if sint (n - 1) < 0 then ts else abs_ins (nat (sint (n - 1))) ts)"
| "abs_edit accepts (EdRm n) ts = (if n = 0 then ts else abs_rm (unat n - 1) ts)"
| "abs_edit accepts (EdAdd n p v) ts =
     (if n = 0 then ts else abs_add (accepts v) (unat n - 1) p v ts)"
| "abs_edit accepts (EdDel n p v) ts =
     (if n = 0 then ts else abs_del (accepts v) (unat n - 1) p v ts)"

lemma pats_of_set [simp]:
  "pats_of (set_prop_list p l f) = (pats_of f)(p := map ptn l)"
  by (auto simp: pats_of_def)

lemma pats_of_empty [simp]: "pats_of empty_filter = (\<lambda>_. [])"
  by (simp add: pats_of_def)

lemma map_ptn_erase [simp]: "map ptn (erase_first_ptn v l) = remove1 v (map ptn l)"
  by (induction l) auto

lemma pats_of_app: "map ptn (prop_list p f) = pats_of f p"
  by (simp add: pats_of_def)

lemma map_insert_at: "map h (insert_at i x xs) = insert_at i (h x) (map h xs)"
  by (simp add: insert_at_def take_map drop_map)

lemma refine_ins:
  "res_map (pats \<circ> snd \<circ> snd) (ins_filter eng n None g) =
     Ok (if sint (n - 1) < 0 then pats g else abs_ins (nat (sint (n - 1))) (pats g))"
proof -
  have "pats_of (empty_filter\<lparr>f_keywords := [regex_of eng ''tg-focus'']\<rparr>) =
      (\<lambda>_. [])(FilterPropertyKeywords := [''tg-focus''])"
    using pats_of_set [of FilterPropertyKeywords "[regex_of eng ''tg-focus'']" empty_filter]
    by (simp del: pats_of_set)
  then show ?thesis
    by (auto simp: ins_filter_def Let_def pats_def abs_ins_def map_insert_at min_def)
qed

lemma refine_rm:
  assumes "filters g \<noteq> []" and "length (filters g) < 2 ^ 32"
  shows "res_map (pats \<circ> snd \<circ> snd) (rm_filter n g) =
     Ok (if n = 0 then pats g else abs_rm (unat n - 1) (pats g))"
proof -
  obtain k where len: "length (filters g) = Suc k" using assms(1) by (cases "filters g") auto
  have sz: "size_t_sub (Suc k) (Suc 0) = k" using size_t_last [OF assms] len by simp
  have u: "n \<noteq> 0 \<Longrightarrow> unat (n - 1) = unat n - Suc 0" by (simp add: unat_minus_one)
  have "k < unat (- 1 :: u32)" using assms(2) len
    by (simp add: unsigned_minus_1_eq_mask mask_eq_exp_minus_1)
  then show ?thesis
    by (cases "n = 0")
      (auto simp: rm_filter_def len sz u Let_def pats_def abs_rm_def take_map drop_map)
qed

lemma refine_add:
  assumes "filters g \<noteq> []" and "length (filters g) < 2 ^ 32"
  shows "res_map (pats \<circ> snd \<circ> snd) (add_one eng n p v g) =
     Ok (if n = 0 then pats g
         else abs_add (is_pattern_accept (regex_of eng v)) (unat n - 1) p v (pats g))"
proof (cases "n = 0")
  case True
  then show ?thesis by (simp add: add_one_def)
next
  case False
  have "map pats_of (if c then filters g else filters g @ [empty_filter]) =
      (if c then pats g else pats g @ [\<lambda>_. []])" for c
    by (simp add: pats_def)
  with False show ?thesis
    by (simp add: add_one_eq [OF assms False] abs_add_def Let_def pats_def map_update
        nth_append pats_of_app)
qed

lemma refine_del:
  assumes "filters g \<noteq> []" and "length (filters g) < 2 ^ 32"
  shows "res_map (pats \<circ> snd \<circ> snd) (del_one eng n p v g) =
     Ok (if n = 0 then pats g
         else abs_del (is_pattern_accept (regex_of eng v)) (unat n - 1) p v (pats g))"
proof (cases "n = 0")
  case True
  then show ?thesis by (simp add: del_one_def)
next
  case False
  have "min (unat n - 1) (length (filters g) - 1) < length (filters g)"
    using assms(1) by (simp add: min_less_iff_disj)
  with False show ?thesis
    by (auto simp: del_one_eq [OF assms False] abs_del_def Let_def pats_def map_update pats_of_app)
qed

lemma res_map_comp: "res_map h (res_map k r) = res_map (h \<circ> k) r"
  by (cases r) simp_all

text \<open>
  C13: The edits implement the operations on pattern tables: insertion at the clamped index,
  removal unless it would empty the group, appending a pattern (to a new last table when the index
  is past the end), and removal of the first equal pattern (in the last table when the index is past
  the end). Patterns that do not compile change no list.
\<close>

theorem edits_refine_tables:
  assumes "filters g \<noteq> []" and "length (filters g) < 2 ^ 32"
  shows "res_map pats (edit_step eng c g) =
           Ok (abs_edit (\<lambda>v. is_pattern_accept (regex_of eng v)) c (pats g))"
  by (cases c)
    (simp_all only: edit_step.simps abs_edit.simps res_map_comp o_assoc refine_ins
      refine_rm [OF assms] refine_add [OF assms] refine_del [OF assms])

lemma edits_refine_tables_witness:
  "res_map pats (edit_step \<lparr>regcomp = \<lambda>p. (0, p), regexec = \<lambda>r s. 1, regerror = \<lambda>_. []\<rparr>
       (EdAdd 5 FilterPropertyTitles ''a'') \<lparr>i_prev_visited = 0, filters = [empty_filter]\<rparr>) =
     Ok [\<lambda>_. [], (\<lambda>_. [])(FilterPropertyTitles := [''a''])]"
  by (subst edits_refine_tables)
    (simp_all add: pats_def abs_add_def Let_def is_pattern_accept_def regex_of_def)

section \<open>Undoing an edit\<close>

lemma take_insert_at: "i \<le> length xs \<Longrightarrow> take i (insert_at i x xs) = take i xs"
  and drop_insert_at: "i \<le> length xs \<Longrightarrow> drop (Suc i) (insert_at i x xs) = drop i xs"
  by (simp_all add: insert_at_def)

lemma ins_filter_TrueD:
  assumes "ins_filter eng n f g = Ok (True, n', g')"
  shows "\<exists>i x. i \<le> length (filters g) \<and> g' = g\<lparr>filters := insert_at i x (filters g)\<rparr> \<and>
           n' = word_of_nat (i + 1)"
proof -
  define k where "k = sint (n - 1)"
  have eq: "ins_filter eng n f g =
    (if k < 0 then Ok (False, n, g)
     else (let idx = (if nat k > length (filters g) then length (filters g) else nat k);
               new = (case f of Some v \<Rightarrow> v | None \<Rightarrow> empty_filter\<lparr>f_keywords := [regex_of eng ''tg-focus'']\<rparr>)
           in Ok (True, word_of_nat (idx + 1), g\<lparr>filters := insert_at idx new (filters g)\<rparr>)))"
    unfolding ins_filter_def k_def by (simp only: Let_def)
  have k: "\<not> k < 0"
  proof
    assume "k < 0"
    with assms eq show False by simp
  qed
  let ?i = "if nat k > length (filters g) then length (filters g) else nat k"
  have "?i \<le> length (filters g)" by simp
  moreover have "\<exists>x. g' = g\<lparr>filters := insert_at ?i x (filters g)\<rparr> \<and> n' = word_of_nat (?i + 1)"
    using assms eq k by (simp only: if_False Let_def res.inject prod.inject) blast
  ultimately show ?thesis by blast
qed

text \<open>
  C32: Inserting a filter and then removing the number that the insertion reports gives the group
  back.
\<close>

theorem insert_remove_roundtrip:
  assumes "ins_filter eng n f g = Ok (True, n', g')"
    and "filters g \<noteq> []" and "length (filters g) < 2 ^ 31"
  shows "rm_filter n' g' = Ok (True, n', g)"
proof -
  obtain i x where i: "i \<le> length (filters g)" and g': "g' = g\<lparr>filters := insert_at i x (filters g)\<rparr>"
    and n': "n' = word_of_nat (i + 1)"
    using ins_filter_TrueD [OF assms(1)] by blast
  have len: "length (filters g') = Suc (length (filters g))"
    using i by (simp add: g' insert_at_def)
  have u: "unat (n' - 1) = i"
    using i assms(3) by (simp add: n' unsigned_of_nat take_bit_eq_mod)
  have sz: "size_t_sub (Suc (length (filters g))) (Suc 0) = length (filters g)"
    using size_t_sub_eq [of 1 "Suc (length (filters g))"] assms(3) by simp
  have "take i (filters g') @ drop (Suc i) (filters g') = filters g"
    using i by (simp add: g' take_insert_at drop_insert_at)
  moreover have "g'\<lparr>filters := filters g\<rparr> = g" by (simp add: g')
  ultimately show ?thesis
    using i assms(2) by (simp add: rm_filter_def len sz u Let_def)
qed

lemma insert_remove_witness:
  "rm_filter 2 \<lparr>i_prev_visited = 0, filters = [empty_filter, empty_filter]\<rparr> =
     Ok (True, 2, \<lparr>i_prev_visited = 0, filters = [empty_filter :: nat Filter]\<rparr>)"
proof -
  have "ins_filter \<lparr>regcomp = \<lambda>p. (0, 0), regexec = \<lambda>r s. 1, regerror = \<lambda>_. []\<rparr> 7 (Some empty_filter)
      \<lparr>i_prev_visited = 0, filters = [empty_filter :: nat Filter]\<rparr> =
    Ok (True, 2, \<lparr>i_prev_visited = 0, filters = [empty_filter, empty_filter]\<rparr>)"
    by (simp add: ins_filter_def Let_def insert_at_def)
  from insert_remove_roundtrip [OF this] show ?thesis by simp
qed

text \<open>
  C34: Adding a pattern that does not compile to a number past the end reports success and leaves a
  new empty filter behind, which accepts every message that the filters before it skip.
\<close>

theorem bad_pattern_opens_group:
  assumes "filters g \<noteq> []" and "length (filters g) < 2 ^ 32" and "length (filters g) < unat w"
    and "\<not> is_pattern_accept (regex_of eng v)"
  shows "\<exists>w' g'. add_one eng w p v g = Ok (True, w', g') \<and> filters g' = filters g @ [empty_filter] \<and>
           (\<forall>msg. fst (group_mtch_tgmsg eng g' msg) \<longleftrightarrow>
              (case find (\<lambda>f. filter_mtch_tgmsg eng f msg \<noteq> Skip) (filters g) of
                 None \<Rightarrow> True | Some f \<Rightarrow> filter_mtch_tgmsg eng f msg = Accept))"
proof -
  have w: "w \<noteq> 0" "\<not> unat w - 1 < length (filters g)" using assms(3) by auto
  have find_app: "find P (xs @ [y]) = (case find P xs of None \<Rightarrow> if P y then Some y else None | r \<Rightarrow> r)"
    for P :: "'a Filter \<Rightarrow> bool" and xs y by (induction xs) auto
  show ?thesis
    using assms(4) w
    by (auto simp: add_one_eq [OF assms(1,2) w(1)] group_mtch_tgmsg_def mtch_loop_spec find_app
        empty_filter_accepts Let_def split: option.splits)
qed

lemma bad_pattern_opens_group_witness:
  "\<exists>w' g'. add_one \<lparr>regcomp = \<lambda>p. (if p = ''['' then 7 else 0, p), regexec = \<lambda>r s. 1, regerror = \<lambda>_. []\<rparr>
       2 FilterPropertyTitles ''[''
       \<lparr>i_prev_visited = 0, filters = [empty_filter\<lparr>f_keywords := [\<lparr>stat_comp = 0, re_of = Some ''k'', ptn = ''k''\<rparr>]\<rparr>]\<rparr> =
       Ok (True, w', g') \<and>
     fst (group_mtch_tgmsg \<lparr>regcomp = \<lambda>p. (if p = ''['' then 7 else 0, p), regexec = \<lambda>r s. 1, regerror = \<lambda>_. []\<rparr>
       g' \<lparr>m_title = [], m_sender = [], m_txt = ''x'', m_tstamp = [], m_id = 0\<rparr>)"
  using bad_pattern_opens_group [of "\<lparr>i_prev_visited = 0, filters = [empty_filter\<lparr>f_keywords :=
      [\<lparr>stat_comp = 0, re_of = Some ''k'', ptn = ''k''\<rparr>]\<rparr>]\<rparr>" 2
      "\<lparr>regcomp = \<lambda>p. (if p = ''['' then 7 else 0, p), regexec = \<lambda>r s. 1, regerror = \<lambda>_. []\<rparr>" "''[''"
      FilterPropertyTitles]
  by (auto simp: is_pattern_accept_def regex_of_def filter_mtch_tgmsg_def mtch_defs empty_filter_def
      is_match_def REG_NOMATCH_def)

end
