(* ===== verification/FilterStore.thy ===== *)
theory FilterStore
  imports Filters Utf
begin

text \<open>
  \<open>src/src/filter.cc\<close>: reading filter groups from TOML text and writing them back. The TOML
  library is third-party code: it is the parameter \<open>toml\<close>, which maps a text to the tables of
  its \<open>focus-filter\<close> array, each with the keys whose values are lists of strings, and to
  \<open>None\<close> where parsing or looking up the array throws. \<open>toml_read\<close> is a reference
  reader for a fragment of TOML; that the library agrees with it on that fragment is the hypothesis
  \<open>toml_conforms\<close> of the round trip.
\<close>

section \<open>From TOML to filters\<close>

type_synonym toml_table = "(string \<times> string list) list"

text \<open>\<open>toml::find_or<vector<string>> (v, key, {})\<close>.\<close>

definition find_or :: "toml_table \<Rightarrow> string \<Rightarrow> string list" where
  "find_or v key = (case map_of v key of None \<Rightarrow> [] | Some l \<Rightarrow> l)"

definition new_FilterToml :: "'re engine \<Rightarrow> toml_table \<Rightarrow> 're Filter" where
  "new_FilterToml eng v =
     \<lparr>f_titles = map (regex_of eng) (find_or v ''titles''),
      f_no_titles = map (regex_of eng) (find_or v ''no-titles''),
      f_senders = map (regex_of eng) (find_or v ''senders''),
      f_no_senders = map (regex_of eng) (find_or v ''no-senders''),
      f_keywords = map (regex_of eng) (find_or v ''keywords''),
      f_no_keywords = map (regex_of eng) (find_or v ''no-keywords'')\<rparr>"

text \<open>
  The handler of the exception falls back to the literal \<open>[[focus-filter]]\<close>, one table without
  keys. \<open>i0\<close> is the indeterminate initial value of \<open>i_prev_visited_\<close>, which every match
  overwrites before use.
\<close>

definition new_FilterGroupToml ::
  "'re engine \<Rightarrow> (string \<Rightarrow> toml_table list option) \<Rightarrow> nat \<Rightarrow> string \<Rightarrow> 're FilterGroup" where
  "new_FilterGroupToml eng toml i0 v =
     \<lparr>i_prev_visited = i0,
      filters = map (new_FilterToml eng) (case toml v of Some ts \<Rightarrow> ts | None \<Rightarrow> [[]])\<rparr>"

definition isEffective :: "'re FilterGroup \<Rightarrow> bool" where
  "isEffective g = (length (filters g) > 0)"

section \<open>From filters to TOML\<close>

fun escape :: "string \<Rightarrow> string" where
  "escape [] = []"
| "escape (c # cs) = (if c = CHR 0x5C then [CHR 0x5C, CHR 0x5C] @ escape cs else c # escape cs)"

fun fs_list :: "string list \<Rightarrow> string" where
  "fs_list [] = []"
| "fs_list [p] = [CHR 0x22] @ escape p @ [CHR 0x22]"
| "fs_list (p # ps) = [CHR 0x22] @ escape p @ [CHR 0x22] @ '', '' @ fs_list ps"

definition fs_line :: "string \<Rightarrow> 're PosixExtRegex list \<Rightarrow> string" where
  "fs_line key res = key @ '' = ['' @ fs_list (map ptn res) @ '']'' @ [CHR 0x0A]"

definition fs_filter :: "'re Filter \<Rightarrow> string" where
  "fs_filter el =
     [CHR 0x0A] @ ''[[focus-filter]]'' @ [CHR 0x0A] @
     fs_line ''titles'' (f_titles el) @
     fs_line ''no-titles'' (f_no_titles el) @
     fs_line ''senders'' (f_senders el) @
     fs_line ''no-senders'' (f_no_senders el) @
     fs_line ''keywords'' (f_keywords el) @
     fs_line ''no-keywords'' (f_no_keywords el)"

definition as_fsdata :: "'re FilterGroup \<Rightarrow> string" where
  "as_fsdata g = concat (map fs_filter (filters g))"

section \<open>A reference reader for a fragment of TOML\<close>

text \<open>
  Basic strings on one line with the escapes for the backslash and the quotation mark, arrays of
  them, bare keys, and the array of tables \<open>focus-filter\<close>. A result \<open>None\<close> only says
  that the text is outside the fragment.
\<close>

function utf8_valid :: "nat list \<Rightarrow> bool" where
  "utf8_valid bs =
     (if bs = [] then True
      else case utf8_next bs of
             MbChar cp len \<Rightarrow> utf8_valid (drop len bs)
           | _ \<Rightarrow> False)"
  by pat_completeness auto

termination utf8_valid
  by (relation "measure length") (auto dest!: utf8_next_len)

declare utf8_valid.simps [simp del]

definition plain_char :: "char \<Rightarrow> bool" where
  "plain_char c =
     (c \<noteq> CHR 0x22 \<and> c \<noteq> CHR 0x5C \<and> 0x20 \<le> (of_char c :: nat) \<and> (of_char c :: nat) \<noteq> 0x7F)"

fun read_string :: "string \<Rightarrow> (string \<times> string) option" where
  "read_string [] = None"
| "read_string (c # cs) =
     (if c = CHR 0x22 then Some ([], cs)
      else if c = CHR 0x5C then
        (case cs of
           [] \<Rightarrow> None
         | e # es \<Rightarrow>
             if e \<in> {CHR 0x22, CHR 0x5C} then map_option (apfst ((#) e)) (read_string es) else None)
      else if plain_char c then map_option (apfst ((#) c)) (read_string cs) else None)"

lemma read_string_len: "read_string s = Some (v, r) \<Longrightarrow> length r < length s"
proof (induction s arbitrary: v r rule: read_string.induct)
  case (2 c cs)
  then show ?case by (fastforce split: if_splits list.splits)
qed simp

text \<open>The elements of an array, from the opening quotation mark to the closing bracket.\<close>

function read_elems :: "string \<Rightarrow> (string list \<times> string) option" where
  "read_elems s =
     (case s of
        [] \<Rightarrow> None
      | q # s1 \<Rightarrow>
          if q = CHR 0x22 then
            (case read_string s1 of
               None \<Rightarrow> None
             | Some (v, s2) \<Rightarrow>
                 if \<not> utf8_valid (bytes_of v) then None
                 else if prefix '', '' s2 then map_option (apfst ((#) v)) (read_elems (drop 2 s2))
                 else if prefix '']'' s2 then Some ([v], drop 1 s2)
                 else None)
          else None)"
  by pat_completeness auto

termination read_elems
  by (relation "measure length") (auto dest!: read_string_len)

declare read_elems.simps [simp del]

definition read_array :: "string \<Rightarrow> (string list \<times> string) option" where
  "read_array s = (if prefix '']'' s then Some ([], drop 1 s) else read_elems s)"

definition bare_char :: "char \<Rightarrow> bool" where
  "bare_char c = (c \<in> set ''abcdefghijklmnopqrstuvwxyz-'')"

lemma read_elems_Cons:
  "read_elems (q # s1) =
     (if q = CHR 0x22 then
        (case read_string s1 of
           None \<Rightarrow> None
         | Some (v, s2) \<Rightarrow>
             if \<not> utf8_valid (bytes_of v) then None
             else if prefix '', '' s2 then map_option (apfst ((#) v)) (read_elems (drop 2 s2))
             else if prefix '']'' s2 then Some ([v], drop 1 s2)
             else None)
      else None)"
  by (subst read_elems.simps) simp

lemma read_elems_len: "read_elems s = Some (v, r) \<Longrightarrow> length r < length s"
proof (induction s arbitrary: v r rule: read_elems.induct)
  case (1 s)
  show ?case
  proof (cases s)
    case Nil
    with 1(2) show ?thesis by (simp add: read_elems.simps)
  next
    case (Cons q s1)
    with 1(2) have q: "q = CHR 0x22" by (simp add: read_elems_Cons split: if_splits)
    with 1(2) Cons obtain w s2 where rs: "read_string s1 = Some (w, s2)"
      and ok: "utf8_valid (bytes_of w)"
      by (auto simp: read_elems_Cons split: option.splits if_splits)
    show ?thesis
    proof (cases "prefix '', '' s2")
      case True
      with 1(2) Cons q rs ok obtain v' where "read_elems (drop 2 s2) = Some (v', r)"
        by (auto simp: read_elems_Cons)
      with 1(1) [OF Cons q rs _ _ True] ok have "length r < length (drop 2 s2)" by auto
      with read_string_len [OF rs] Cons show ?thesis by simp
    next
      case False
      with 1(2) Cons q rs ok have "r = drop 1 s2"
        by (simp add: read_elems_Cons split: if_splits)
      with read_string_len [OF rs] Cons show ?thesis by simp
    qed
  qed
qed

definition key_of :: "string \<Rightarrow> string" where
  "key_of s = takeWhile bare_char s"

definition after_key :: "string \<Rightarrow> string" where
  "after_key s = dropWhile bare_char s"

lemma after_key_len: "length (after_key s) \<le> length s"
  by (simp add: after_key_def length_dropWhile_le)

text \<open>
  The key-value lines of one table: up to the end of the text, an empty line or the next table.
\<close>

function read_lines :: "string \<Rightarrow> (toml_table \<times> string) option" where
  "read_lines s =
     (case s of
        [] \<Rightarrow> Some ([], [])
      | c # cs \<Rightarrow>
          if c = CHR 0x0A \<or> c = CHR ''['' then Some ([], s)
          else
            (let key = key_of s; s1 = after_key s
             in if key = [] \<or> \<not> prefix '' = ['' s1 then None
                else case read_array (drop 4 s1) of
                       None \<Rightarrow> None
                     | Some (l, s2) \<Rightarrow>
                         if \<not> prefix [CHR 0x0A] s2 then None
                         else (case read_lines (drop 1 s2) of
                                 None \<Rightarrow> None
                               | Some (ls, s3) \<Rightarrow>
                                   if key \<in> set (map fst ls) then None
                                   else Some ((key, l) # ls, s3))))"
  by pat_completeness auto

lemma read_array_len: "read_array s = Some (l, r) \<Longrightarrow> length r < length s"
  by (cases s) (auto simp: read_array_def split: if_splits dest: read_elems_len)

termination read_lines
proof (relation "measure length", goal_cases)
  case (2 s c cs key s1 l b s2)
  then have "length s2 < length (after_key s)"
    using read_array_len by fastforce
  with after_key_len [of s] show ?case by simp
qed simp

declare read_lines.simps [simp del]

lemma read_lines_len: "read_lines s = Some (t, r) \<Longrightarrow> length r \<le> length s"
proof (induction s arbitrary: t r rule: read_lines.induct)
  case (1 s)
  show ?case
  proof (cases "s = [] \<or> hd s = CHR 0x0A \<or> hd s = CHR ''[''")
    case True
    with 1(2) show ?thesis by (cases s) (auto simp: read_lines.simps)
  next
    case False
    then obtain c cs where s: "s = c # cs" and c: "\<not> (c = CHR 0x0A \<or> c = CHR ''['')"
      by (cases s) auto
    from 1(2) s c obtain l s2 ls where
      ok: "\<not> (key_of s = [] \<or> \<not> prefix '' = ['' (after_key s))" and
      arr: "read_array (drop 4 (after_key s)) = Some (l, s2)" and nl: "\<not> \<not> prefix [CHR 0x0A] s2" and
      rest: "read_lines (drop 1 s2) = Some (ls, r)"
      by (subst (asm) read_lines.simps) (auto simp: Let_def split: if_splits option.splits)
    have "length r \<le> length (drop 1 s2)"
      by (rule 1(1) [OF s c refl refl ok arr refl nl rest])
    also have "\<dots> \<le> length s"
      using read_array_len [OF arr] after_key_len [of s] by simp
    finally show ?thesis .
  qed
qed

definition table_header :: string where
  "table_header = ''[[focus-filter]]'' @ [CHR 0x0A]"

function read_doc :: "string \<Rightarrow> toml_table list option" where
  "read_doc s =
     (if s = [] then Some []
      else if hd s = CHR 0x0A then read_doc (tl s)
      else if prefix table_header s then
        (case read_lines (drop (length table_header) s) of
           None \<Rightarrow> None
         | Some (t, s') \<Rightarrow> map_option ((#) t) (read_doc s'))
      else None)"
  by pat_completeness auto

termination read_doc
proof (relation "measure length", goal_cases)
  case (3 s p t s')
  from 3(4,5) have "length s' \<le> length (drop (length table_header) s)"
    by (auto dest: read_lines_len)
  then have "length s' \<le> length s - 17" by (simp add: table_header_def)
  with 3(1) show ?case by (cases s) auto
qed auto

declare read_doc.simps [simp del]

definition toml_read :: "string \<Rightarrow> toml_table list option" where
  "toml_read s = (case read_doc s of Some (t # ts) \<Rightarrow> Some (t # ts) | _ \<Rightarrow> None)"

definition toml_conforms :: "(string \<Rightarrow> toml_table list option) \<Rightarrow> bool" where
  "toml_conforms toml = (\<forall>s ts. toml_read s = Some ts \<longrightarrow> toml s = Some ts)"

section \<open>The round trip\<close>

text \<open>
  Patterns the writer stores faithfully: well-formed UTF-8 without a quotation mark and without
  control characters.
\<close>

definition storable :: "string \<Rightarrow> bool" where
  "storable p = (list_all (\<lambda>c. plain_char c \<or> c = CHR 0x5C) p \<and> utf8_valid (bytes_of p))"

lemma read_string_escape:
  "list_all (\<lambda>c. plain_char c \<or> c = CHR 0x5C) p \<Longrightarrow>
     read_string (escape p @ CHR 0x22 # r) = Some (p, r)"
  by (induction p) (auto simp: plain_char_def)

lemma read_elems_fs_list:
  "list_all storable (p # ps) \<Longrightarrow> read_elems (fs_list (p # ps) @ CHR '']'' # r) = Some (p # ps, r)"
proof (induction ps arbitrary: p)
  case Nil
  then show ?case by (simp add: read_elems_Cons read_string_escape storable_def)
next
  case (Cons q ps)
  then have "read_elems (fs_list (q # ps) @ CHR '']'' # r) = Some (q # ps, r)" by simp
  with Cons.prems show ?case by (simp add: read_elems_Cons read_string_escape storable_def)
qed

lemma read_array_fs_list:
  "list_all storable ps \<Longrightarrow> read_array (fs_list ps @ CHR '']'' # r) = Some (ps, r)"
proof (cases ps)
  case (Cons p qs)
  moreover have "\<not> prefix '']'' (fs_list (p # qs) @ CHR '']'' # r)" by (cases qs) auto
  moreover assume "list_all storable ps"
  ultimately show ?thesis using read_elems_fs_list [of p qs r] by (simp add: read_array_def)
qed (simp add: read_array_def)

lemma read_lines_fs_line:
  assumes "list_all bare_char key" and "key \<noteq> []" and "list_all (storable \<circ> ptn) res"
    and "read_lines r = Some (ls, r')" and "key \<notin> set (map fst ls)"
  shows "read_lines (fs_line key res @ r) = Some ((key, map ptn res) # ls, r')"
proof -
  obtain c cs where key: "key = c # cs" using assms(2) by (cases key) auto
  have c: "c \<noteq> CHR 0x0A" "c \<noteq> CHR ''[''" using assms(1) key by (auto simp: bare_char_def)
  let ?rest = "fs_list (map ptn res) @ CHR '']'' # CHR 0x0A # r"
  have line: "fs_line key res @ r = key @ '' = ['' @ ?rest" by (simp add: fs_line_def)
  have sp: "\<not> bare_char (CHR '' '')" by (simp add: bare_char_def)
  have k: "key_of (key @ '' = ['' @ ?rest) = key" "after_key (key @ '' = ['' @ ?rest) = '' = ['' @ ?rest"
    using assms(1) sp by (simp_all add: key_of_def after_key_def takeWhile_append dropWhile_append list_all_iff)
  have "read_array ?rest = Some (map ptn res, CHR 0x0A # r)"
    using assms(3) by (intro read_array_fs_list) (simp add: list.pred_map)
  with k assms(2,4,5) c show ?thesis
    unfolding line by (subst read_lines.simps) (simp add: key)
qed

definition table_of :: "'re Filter \<Rightarrow> toml_table" where
  "table_of f =
     [(''titles'', map ptn (f_titles f)), (''no-titles'', map ptn (f_no_titles f)),
      (''senders'', map ptn (f_senders f)), (''no-senders'', map ptn (f_no_senders f)),
      (''keywords'', map ptn (f_keywords f)), (''no-keywords'', map ptn (f_no_keywords f))]"

definition filter_regexes :: "'re Filter \<Rightarrow> 're PosixExtRegex list" where
  "filter_regexes f =
     f_titles f @ f_no_titles f @ f_senders f @ f_no_senders f @ f_keywords f @ f_no_keywords f"

text \<open>Every expression of the group is the compiled form of its pattern, and can be stored.\<close>

definition group_storable :: "'re engine \<Rightarrow> 're FilterGroup \<Rightarrow> bool" where
  "group_storable eng g =
     list_all (\<lambda>f. list_all (\<lambda>r. r = regex_of eng (ptn r) \<and> storable (ptn r)) (filter_regexes f))
       (filters g)"

lemma read_lines_stop: "r = [] \<or> hd r = CHR 0x0A \<Longrightarrow> read_lines r = Some ([], r)"
  by (cases r) (auto simp: read_lines.simps)

lemma read_fs_filter:
  assumes "list_all (storable \<circ> ptn) (filter_regexes f)" and "r = [] \<or> hd r = CHR 0x0A"
    and "read_doc r = Some ts"
  shows "read_doc (fs_filter f @ r) = Some (table_of f # ts)"
proof -
  let ?lines = "fs_line ''titles'' (f_titles f) @ fs_line ''no-titles'' (f_no_titles f) @
     fs_line ''senders'' (f_senders f) @ fs_line ''no-senders'' (f_no_senders f) @
     fs_line ''keywords'' (f_keywords f) @ fs_line ''no-keywords'' (f_no_keywords f) @ r"
  have ok: "list_all (storable \<circ> ptn) (f_titles f)" "list_all (storable \<circ> ptn) (f_no_titles f)"
    "list_all (storable \<circ> ptn) (f_senders f)" "list_all (storable \<circ> ptn) (f_no_senders f)"
    "list_all (storable \<circ> ptn) (f_keywords f)" "list_all (storable \<circ> ptn) (f_no_keywords f)"
    using assms(1) by (simp_all add: filter_regexes_def)
  have "read_lines ?lines = Some (table_of f, r)"
    unfolding table_of_def
    by (intro read_lines_fs_line ok read_lines_stop assms(2)) (simp_all add: bare_char_def)
  moreover have "fs_filter f @ r = CHR 0x0A # table_header @ ?lines"
    by (simp add: fs_filter_def table_header_def)
  moreover have "read_doc (CHR 0x0A # x) = read_doc x" for x
    by (subst read_doc.simps) simp
  moreover have "read_doc (table_header @ x) =
      (case read_lines x of None \<Rightarrow> None | Some (t, s') \<Rightarrow> map_option ((#) t) (read_doc s'))" for x
    by (subst read_doc.simps) (simp add: table_header_def)
  ultimately show ?thesis using assms(3) by simp
qed

lemma hd_fs_filter [simp]: "hd (fs_filter f @ r) = CHR 0x0A" and fs_filter_ne [simp]: "fs_filter f \<noteq> []"
  by (simp_all add: fs_filter_def)

lemma read_doc_fsdata:
  "list_all (\<lambda>f. list_all (storable \<circ> ptn) (filter_regexes f)) fs \<Longrightarrow>
     read_doc (concat (map fs_filter fs)) = Some (map table_of fs)"
proof (induction fs)
  case Nil
  then show ?case by (simp add: read_doc.simps)
next
  case (Cons f fs)
  have "concat (map fs_filter fs) = [] \<or> hd (concat (map fs_filter fs)) = CHR 0x0A"
    by (cases fs) simp_all
  with Cons show ?case using read_fs_filter [of f "concat (map fs_filter fs)"]
    by (simp add: comp_def)
qed

lemma new_FilterToml_table:
  "list_all (\<lambda>r. r = regex_of eng (ptn r)) (filter_regexes f) \<Longrightarrow> new_FilterToml eng (table_of f) = f"
proof -
  assume a: "list_all (\<lambda>r. r = regex_of eng (ptn r)) (filter_regexes f)"
  have m: "list_all (\<lambda>r. r = regex_of eng (ptn r)) l \<Longrightarrow> map (regex_of eng \<circ> ptn) l = l" for l
    by (induction l) auto
  show ?thesis
    using a by (simp add: new_FilterToml_def find_or_def table_of_def filter_regexes_def m)
qed

lemma new_FilterGroupToml_fsdata:
  assumes "toml_conforms toml" and "group_storable eng g" and "filters g \<noteq> []"
  shows "filters (new_FilterGroupToml eng toml i0 (as_fsdata g)) = filters g"
proof -
  have st: "list_all (\<lambda>f. list_all (storable \<circ> ptn) (filter_regexes f)) (filters g)"
    and comp: "list_all (\<lambda>f. list_all (\<lambda>r. r = regex_of eng (ptn r)) (filter_regexes f)) (filters g)"
    using assms(2) by (simp_all add: group_storable_def list_all_iff)
  have "toml_read (as_fsdata g) = Some (map table_of (filters g))"
    using read_doc_fsdata [OF st] assms(3)
    by (cases "filters g") (simp_all add: toml_read_def as_fsdata_def)
  then have "toml (as_fsdata g) = Some (map table_of (filters g))"
    using assms(1) by (simp add: toml_conforms_def)
  moreover have "map (new_FilterToml eng \<circ> table_of) (filters g) = filters g"
    using comp by (intro map_idI) (auto simp: list_all_iff intro!: new_FilterToml_table)
  ultimately show ?thesis by (simp add: new_FilterGroupToml_def)
qed

text \<open>
  C6: Writing a group and reading the text back gives the same filters, for every library that
  agrees with the reference reader on its fragment: nothing is lost or reordered, provided the
  patterns are well-formed UTF-8 without quotation marks and control characters.
\<close>

theorem fsdata_roundtrip:
  assumes "toml_conforms toml" and "group_storable eng g" and "filters g \<noteq> []"
  shows "filters (new_FilterGroupToml eng toml i0 (as_fsdata g)) = filters g"
  using assms by (rule new_FilterGroupToml_fsdata)

lemma utf8_valid_ascii: "list_all (\<lambda>b. b < 0x80) bs \<Longrightarrow> utf8_valid bs"
  by (induction bs) (simp add: utf8_valid.simps, subst utf8_valid.simps, simp add: utf8_lead_def)

lemma utf8_valid_str: "list_all is_scalar cps \<Longrightarrow> utf8_valid (bytes_of (utf8_str cps))"
proof (simp only: bytes_of_utf8_str, induction cps)
  case Nil
  then show ?case by (simp add: utf8_valid.simps)
next
  case (Cons cp cps)
  then show ?case by (subst utf8_valid.simps) (simp add: utf8_next_enc)
qed

lemma toml_read_conforms: "toml_conforms toml_read"
  by (simp add: toml_conforms_def)

lemma fsdata_roundtrip_witness:
  "filters (new_FilterGroupToml \<lparr>regcomp = \<lambda>p. (0, p), regexec = \<lambda>r s. 1, regerror = \<lambda>_. []\<rparr> toml_read 0
     (as_fsdata \<lparr>i_prev_visited = 0, filters =
        [empty_filter\<lparr>f_titles := [\<lparr>stat_comp = 0, re_of = Some ''a'', ptn = ''a''\<rparr>,
                                  \<lparr>stat_comp = 0, re_of = Some [CHR 0x5C, CHR ''.''],
                                   ptn = [CHR 0x5C, CHR ''.'']\<rparr>]\<rparr>]\<rparr>)) =
   [empty_filter\<lparr>f_titles := [\<lparr>stat_comp = 0, re_of = Some ''a'', ptn = ''a''\<rparr>,
                             \<lparr>stat_comp = 0, re_of = Some [CHR 0x5C, CHR ''.''],
                              ptn = [CHR 0x5C, CHR ''.'']\<rparr>]\<rparr>]"
  by (subst fsdata_roundtrip [OF toml_read_conforms])
    (simp_all add: group_storable_def filter_regexes_def empty_filter_def regex_of_def storable_def
      plain_char_def bytes_of_def utf8_valid_ascii)

text \<open>
  C33: A filter text that the library cannot read turns filtering off: the group then holds one
  filter without patterns, and every message is accepted.
\<close>

theorem unreadable_filters_accept_all:
  assumes "toml v = None"
  shows "filters (new_FilterGroupToml eng toml i0 v) = [empty_filter] \<and>
         fst (group_mtch_tgmsg eng (new_FilterGroupToml eng toml i0 v) msg)"
proof -
  have "filters (new_FilterGroupToml eng toml i0 v) = [empty_filter]"
    using assms by (simp add: new_FilterGroupToml_def new_FilterToml_def find_or_def empty_filter_def)
  then show ?thesis by (simp add: group_mtch_tgmsg_def mtch_loop_spec empty_filter_accepts)
qed

lemma unreadable_filters_witness:
  "fst (group_mtch_tgmsg \<lparr>regcomp = \<lambda>p. (0, p), regexec = \<lambda>r s. 1, regerror = \<lambda>_. []\<rparr>
     (new_FilterGroupToml \<lparr>regcomp = \<lambda>p. (0, p), regexec = \<lambda>r s. 1, regerror = \<lambda>_. []\<rparr>
        (\<lambda>s. if s = ''keywords = ['' then None else toml_read s) 3 ''keywords = ['')
     \<lparr>m_title = ''t'', m_sender = [], m_txt = ''x'', m_tstamp = [], m_id = 0\<rparr>)"
  by (rule conjunct2 [OF unreadable_filters_accept_all]) simp

lemma new_FilterGroupToml_ok:
  "toml v \<noteq> Some [] \<Longrightarrow> group_ok (new_FilterGroupToml eng toml i0 v)"
  by (auto simp: group_ok_def new_FilterGroupToml_def new_FilterToml_def filter_ok_def list_all_iff
      regex_ok_of split: option.splits)

end
