(* ===== verification/Codec.thy ===== *)
theory Codec
  imports Prelude
begin

text \<open>
  Fixed-width integers as bytes: the shift loops of \<open>user_data.cc\<close> (least significant byte
  first) and of \<open>ipc_msg.cc\<close> (most significant byte first), and the interface
  \<open>byte_codec\<close> that both provide to the rest of the development.
\<close>

unbundle bit_operations_syntax

section \<open>The interface\<close>

locale byte_codec =
  fixes enc :: "'a \<Rightarrow> u8 list"
    and dec :: "u8 list \<Rightarrow> 'a"
    and width :: nat
  assumes dec_enc: "dec (enc x) = x"
    and enc_length: "length (enc x) = width"
begin

lemma enc_inj: "enc x = enc y \<longleftrightarrow> x = y"
  using dec_enc by metis

lemma dec_take: "dec (take width (enc x @ rest)) = x"
  by (simp add: enc_length dec_enc)

lemma drop_enc: "drop width (enc x @ rest) = rest"
  by (simp add: enc_length)

end

section \<open>Least significant byte first\<close>

text \<open>
  The writing loop: \<open>curr = tmp & 0xff\<close>, then \<open>tmp >>= 8\<close> on the signed value.
\<close>

fun le_write :: "nat \<Rightarrow> 'a::len word \<Rightarrow> u8 list" where
  "le_write 0 tmp = []"
| "le_write (Suc n) tmp = ucast (tmp AND 0xFF) # le_write n (signed_drop_bit 8 tmp)"

text \<open>
  The reading loop from byte \<open>i\<close> on: a byte that is missing reads as zero, since
  \<open>fread\<close> then leaves \<open>b\<close> alone.
\<close>

fun le_read :: "nat \<Rightarrow> nat \<Rightarrow> u8 list \<Rightarrow> 'a::len word \<Rightarrow> 'a word" where
  "le_read i 0 bs res = res"
| "le_read i (Suc n) bs res =
     (let b = (case bs of [] \<Rightarrow> 0 | x # _ \<Rightarrow> x)
      in le_read (i + 1) n (tl bs) (push_bit (8 * i) (ucast b) OR res))"

lemma le_write_length [simp]: "length (le_write n w) = n"
  by (induction n arbitrary: w) auto

lemma low_byte: "(ucast (ucast (w AND 0xFF) :: u8) :: 'a::len word) = take_bit 8 w"
proof -
  have "w AND 0xFF = take_bit 8 w" by (simp add: take_bit_eq_mask mask_eq_exp_minus_1)
  then show ?thesis
    by (simp only:) (rule bit_word_eqI, auto simp: bit_simps)
qed

lemma split_low_byte:
  fixes w :: "'a::len word"
  shows "push_bit (8 * Suc i) (take_bit (8 * n) (signed_drop_bit 8 w)) OR push_bit (8 * i) (take_bit 8 w)
    = push_bit (8 * i) (take_bit (8 * Suc n) w)"
  by (rule bit_word_eqI) (auto simp: bit_simps)

lemma le_read_write:
  "le_read i n (le_write n w) r = push_bit (8 * i) (take_bit (8 * n) w) OR r"
proof (induction n arbitrary: i w r)
  case (Suc n)
  have "le_read i (Suc n) (le_write (Suc n) w) r =
      push_bit (8 * Suc i) (take_bit (8 * n) (signed_drop_bit 8 w)) OR
        (push_bit (8 * i) (take_bit 8 w) OR r)"
    by (simp add: Let_def Suc.IH low_byte)
  also have "\<dots> = push_bit (8 * i) (take_bit (8 * Suc n) w) OR r"
    by (simp only: or.assoc [symmetric] split_low_byte)
  finally show ?case .
qed simp

definition le32 :: "i32 \<Rightarrow> u8 list" where
  "le32 w = le_write 4 w"

definition un_le32 :: "u8 list \<Rightarrow> i32" where
  "un_le32 bs = le_read 0 4 bs 0"

definition le64 :: "i64 \<Rightarrow> u8 list" where
  "le64 w = le_write 8 w"

definition un_le64 :: "u8 list \<Rightarrow> i64" where
  "un_le64 bs = le_read 0 8 bs 0"

interpretation le32: byte_codec le32 un_le32 4
  by unfold_locales (simp_all add: le32_def un_le32_def le_read_write take_bit_word_eq_self)

interpretation le64: byte_codec le64 un_le64 8
  by unfold_locales (simp_all add: le64_def un_le64_def le_read_write take_bit_word_eq_self)

section \<open>Most significant byte first\<close>

text \<open>The parsing loop \<open>acc = (acc << 8) | byte\<close>.\<close>

fun be_read :: "'a::len word \<Rightarrow> u8 list \<Rightarrow> 'a word" where
  "be_read acc [] = acc"
| "be_read acc (b # bs) = be_read (push_bit 8 acc OR ucast b) bs"

definition be16 :: "u16 \<Rightarrow> u8 list" where
  "be16 w = [ucast (drop_bit 8 w), ucast w]"

definition be32 :: "u32 \<Rightarrow> u8 list" where
  "be32 w = [ucast (drop_bit 24 w), ucast (drop_bit 16 w), ucast (drop_bit 8 w), ucast w]"

lemma be16_read: "be_read 0 (be16 w) = w"
  by (rule bit_word_eqI) (auto simp: be16_def bit_simps)

lemma be32_read: "be_read 0 (be32 w) = w"
proof (rule bit_word_eqI)
  fix n :: nat
  assume "n < LENGTH(32)"
  then consider "n < 8" | "8 \<le> n" "n < 16" | "16 \<le> n" "n < 24" | "24 \<le> n" "n < 32"
    by force
  then show "bit (be_read 0 (be32 w) :: u32) n = bit w n"
    by cases (auto simp: be32_def bit_simps)
qed

interpretation be16: byte_codec be16 "be_read 0" 2
  by unfold_locales (simp_all add: be16_read, simp add: be16_def)

interpretation be32: byte_codec be32 "be_read 0" 4
  by unfold_locales (simp_all add: be32_read, simp add: be32_def)

end
