(* ===== verification/UserData.thy ===== *)
theory UserData
  imports Codec Common LocaleConf
begin

text \<open>
  \<open>src/src/user_data.hh\<close> and \<open>user_data.cc\<close>: the data directory of a user, one small
  file per setting. The file system is explicit: \<open>files\<close> maps a path to its bytes,
  \<open>deny\<close> says which paths \<open>fopen\<close> refuses, \<open>flock_ok\<close> whether \<open>flock\<close>
  succeeds, \<open>held\<close> which lock files are locked. Blocking on a lock of another process and
  running out of disk space are not modelled.
\<close>

section \<open>Files and locks\<close>

record world =
  files :: "string \<Rightarrow> string option"
  dirs :: "string set"
  deny :: "string \<Rightarrow> bool"
  flock_ok :: bool
  held :: "string set"

text \<open>Opening for reading, for writing (which truncates) and for appending; \<open>None\<close> is a null stream.\<close>

definition fopen_r :: "world \<Rightarrow> string \<Rightarrow> string option" where
  "fopen_r w p = (if deny w p then None else files w p)"

definition fopen_w :: "world \<Rightarrow> string \<Rightarrow> world option" where
  "fopen_w w p = (if deny w p then None else Some (w\<lparr>files := (files w)(p \<mapsto> [])\<rparr>))"

definition fopen_a :: "world \<Rightarrow> string \<Rightarrow> world option" where
  "fopen_a w p =
     (if deny w p then None
      else Some (case files w p of None \<Rightarrow> w\<lparr>files := (files w)(p \<mapsto> [])\<rparr> | Some _ \<Rightarrow> w))"

definition file_exists :: "world \<Rightarrow> string \<Rightarrow> bool" where
  "file_exists w p = (files w p \<noteq> None)"

text \<open>\<open>fwrite\<close> at the end of the file.\<close>

definition fwrite :: "string \<Rightarrow> string \<Rightarrow> world \<Rightarrow> world" where
  "fwrite p bytes w =
     w\<lparr>files := (files w)(p \<mapsto> (case files w p of None \<Rightarrow> [] | Some c \<Rightarrow> c) @ bytes)\<rparr>"

definition write_file :: "string \<Rightarrow> string \<Rightarrow> world \<Rightarrow> world" where
  "write_file p bytes w = w\<lparr>files := (files w)(p \<mapsto> bytes)\<rparr>"

text \<open>Opening a file for appending and closing it at once creates it if it is missing.\<close>

definition touch :: "string \<Rightarrow> world \<Rightarrow> world" where
  "touch p w = (case fopen_a w p of None \<Rightarrow> w | Some w' \<Rightarrow> w')"

definition create_directory :: "string \<Rightarrow> world \<Rightarrow> world" where
  "create_directory p w = w\<lparr>dirs := insert p (dirs w)\<rparr>"

definition remove_all :: "string \<Rightarrow> world \<Rightarrow> world" where
  "remove_all p w =
     w\<lparr>files := (\<lambda>q. if q = p \<or> prefix (p @ ''/'') q then None else files w q),
       dirs := {q \<in> dirs w. \<not> (q = p \<or> prefix (p @ ''/'') q)}\<rparr>"

text \<open>\<open>filesystem::path\<close> division.\<close>

definition path_div :: "string \<Rightarrow> string \<Rightarrow> string" where
  "path_div p q =
     (if q \<noteq> [] \<and> hd q = CHR ''/'' then q
      else if p = [] \<or> last p = CHR ''/'' then p @ q
      else p @ ''/'' @ q)"

text \<open>A stream is the path of its open file, \<open>None\<close> for a null pointer.\<close>

definition lock_stream :: "string option \<Rightarrow> world \<Rightarrow> bool \<times> world" where
  "lock_stream strm w =
     (case strm of
        None \<Rightarrow> (False, w)
      | Some p \<Rightarrow> if \<not> flock_ok w then (False, w) else (True, w\<lparr>held := insert p (held w)\<rparr>))"

definition unlock_stream :: "string option \<Rightarrow> world \<Rightarrow> bool \<times> world" where
  "unlock_stream strm w =
     (case strm of
        None \<Rightarrow> (False, w)
      | Some p \<Rightarrow> if \<not> flock_ok w then (False, w) else (True, w\<lparr>held := held w - {p}\<rparr>))"

section \<open>The class UserData\<close>

record UserData =
  lck_droot :: "string option"
  lck_filters :: "string option"
  data_root_majv :: string

definition DIR_DATAROOT :: string where
  "DIR_DATAROOT = ''.tgfocus''"

definition TF_VER_MAJOR :: string where
  "TF_VER_MAJOR = ''3''"

definition abspath_of :: "UserData \<Rightarrow> string \<Rightarrow> string" where
  "abspath_of u subname = path_div (data_root_majv u) subname"

definition name_droot :: string where
  "name_droot = DIR_DATAROOT"

definition path_droot :: "UserData \<Rightarrow> string" where
  "path_droot u = data_root_majv u"

definition path_tddata :: "UserData \<Rightarrow> string" where
  "path_tddata u = path_div (data_root_majv u) ''tdlib''"

definition path_api_id :: "UserData \<Rightarrow> string" where
  "path_api_id u = path_div (data_root_majv u) ''api_id''"

definition path_api_hash :: "UserData \<Rightarrow> string" where
  "path_api_hash u = path_div (data_root_majv u) ''api_hash''"

definition path_auth_hint :: "UserData \<Rightarrow> string" where
  "path_auth_hint u = path_div (data_root_majv u) ''auth_hint''"

definition path_filters :: "UserData \<Rightarrow> string" where
  "path_filters u = path_div (data_root_majv u) ''filters.toml''"

definition path_filters_tmp :: "UserData \<Rightarrow> string" where
  "path_filters_tmp u = path_div (data_root_majv u) ''filters.toml.tmp''"

definition path_tgfid :: "UserData \<Rightarrow> string" where
  "path_tgfid u = path_div (data_root_majv u) ''tgfid''"

definition path_pref_lang :: "UserData \<Rightarrow> string" where
  "path_pref_lang u = path_div (data_root_majv u) ''pref_lang''"

definition path_log_parent :: "UserData \<Rightarrow> string" where
  "path_log_parent u = path_div (data_root_majv u) ''parent.log''"

definition path_log_child :: "UserData \<Rightarrow> string" where
  "path_log_child u = path_div (data_root_majv u) ''child.log''"

definition path_log_child_coll :: "UserData \<Rightarrow> string" where
  "path_log_child_coll u = path_div (data_root_majv u) ''child_coll.log''"

definition path_tgfid_type_pref :: "string \<Rightarrow> string" where
  "path_tgfid_type_pref droot = path_div droot ''tgfid_t''"

lemmas path_defs =
  path_tddata_def path_api_id_def path_api_hash_def path_auth_hint_def path_filters_def
  path_filters_tmp_def path_tgfid_def path_pref_lang_def path_log_parent_def path_log_child_def
  path_log_child_coll_def path_tgfid_type_pref_def

section \<open>Getters\<close>

text \<open>
  \<open>fread\<close> and \<open>fclose\<close> on a null stream are undefined, so the byte getters are \<open>Undef\<close>
  when their file cannot be opened.
\<close>

definition with_stream :: "world \<Rightarrow> string \<Rightarrow> (u8 list \<Rightarrow> 'a) \<Rightarrow> 'a res" where
  "with_stream w p f =
     (case fopen_r w p of None \<Rightarrow> Undef | Some c \<Rightarrow> Ok (f (map byte_of_char c)))"

definition first_byte :: "u8 list \<Rightarrow> u8" where
  "first_byte bs = (case bs of [] \<Rightarrow> 0 | b # _ \<Rightarrow> b)"

definition value_or_dash :: "string option \<Rightarrow> string" where
  "value_or_dash r = (case r of None \<Rightarrow> ''-'' | Some s \<Rightarrow> s)"

definition get_api_id :: "UserData \<Rightarrow> world \<Rightarrow> i32 res" where
  "get_api_id u w = with_stream w (path_api_id u) un_le32"

definition get_api_hash :: "UserData \<Rightarrow> world \<Rightarrow> string res" where
  "get_api_hash u w =
     res_map (\<lambda>r. trim (value_or_dash r)) (read_to_string (fopen_r w (path_api_hash u)))"

definition get_auth_hint :: "UserData \<Rightarrow> world \<Rightarrow> bool res" where
  "get_auth_hint u w =
     res_map (\<lambda>r. let strdata = value_or_dash r
                  in if strdata = ''a'' then True else if strdata = ''u'' then False else False)
       (read_to_string (fopen_r w (path_auth_hint u)))"

definition get_filters :: "UserData \<Rightarrow> world \<Rightarrow> string res" where
  "get_filters u w = res_map value_or_dash (read_to_string (fopen_r w (path_filters u)))"

definition get_filters_tmp :: "UserData \<Rightarrow> world \<Rightarrow> string res" where
  "get_filters_tmp u w = res_map value_or_dash (read_to_string (fopen_r w (path_filters_tmp u)))"

definition get_tgfid :: "UserData \<Rightarrow> world \<Rightarrow> i64 res" where
  "get_tgfid u w = with_stream w (path_tgfid u) un_le64"

definition is_tgfid_valid :: "UserData \<Rightarrow> world \<Rightarrow> bool res" where
  "is_tgfid_valid u w = with_stream w (path_tgfid u) (\<lambda>bs. un_le64 bs \<noteq> - 1)"

definition get_pref_lang :: "UserData \<Rightarrow> world \<Rightarrow> Lang res" where
  "get_pref_lang u w = with_stream w (path_pref_lang u) first_byte"

definition get_tgfid_type :: "string \<Rightarrow> world \<Rightarrow> u8 res" where
  "get_tgfid_type droot w = with_stream w (path_tgfid_type_pref droot) first_byte"

definition is_basic_tgfid :: "UserData \<Rightarrow> world \<Rightarrow> bool res" where
  "is_basic_tgfid u w = res_map (\<lambda>t. t = 2) (get_tgfid_type (data_root_majv u) w)"

definition is_super_tgfid :: "UserData \<Rightarrow> world \<Rightarrow> bool res" where
  "is_super_tgfid u w = res_map (\<lambda>t. t = 3) (get_tgfid_type (data_root_majv u) w)"

section \<open>Setters\<close>

definition set_bytes :: "string \<Rightarrow> u8 list \<Rightarrow> world \<Rightarrow> world res" where
  "set_bytes p bs w =
     (case fopen_w w p of None \<Rightarrow> Undef | Some w' \<Rightarrow> Ok (fwrite p (map char_of_byte bs) w'))"

definition set_api_id :: "UserData \<Rightarrow> i32 \<Rightarrow> world \<Rightarrow> world res" where
  "set_api_id u ipt w = set_bytes (path_api_id u) (le32 ipt) w"

definition set_api_hash :: "UserData \<Rightarrow> string \<Rightarrow> world \<Rightarrow> world res" where
  "set_api_hash u inp w =
     (if length inp = 0 then Ok w
      else case fopen_w w (path_api_hash u) of
             None \<Rightarrow> Ok w
           | Some w' \<Rightarrow> Ok (fwrite (path_api_hash u) inp w'))"

definition set_auth_hint :: "UserData \<Rightarrow> bool \<Rightarrow> world \<Rightarrow> world res" where
  "set_auth_hint u flag w =
     (case fopen_w w (path_auth_hint u) of
        None \<Rightarrow> Ok w
      | Some w' \<Rightarrow> Ok (if flag then fwrite (path_auth_hint u) ''a'' w'
                       else fwrite (path_auth_hint u) ''u'' w'))"

definition set_filters :: "UserData \<Rightarrow> string \<Rightarrow> world \<Rightarrow> world res" where
  "set_filters u inp w =
     (if length inp = 0 then Ok w
      else
        (let (locked, w1) = lock_stream (lck_filters u) w
         in if \<not> locked then Ok w1
            else case fopen_w w1 (path_filters u) of
                   None \<Rightarrow> Ok w1
                 | Some w2 \<Rightarrow>
                     Ok (snd (unlock_stream (lck_filters u) (fwrite (path_filters u) inp w2)))))"

definition set_tgfid :: "UserData \<Rightarrow> i64 \<Rightarrow> world \<Rightarrow> world res" where
  "set_tgfid u inp w = set_bytes (path_tgfid u) (le64 inp) w"

definition set_pref_lang :: "UserData \<Rightarrow> Lang \<Rightarrow> world \<Rightarrow> world res" where
  "set_pref_lang u l w = set_bytes (path_pref_lang u) [l] w"

definition set_tgfid_type :: "string \<Rightarrow> u8 \<Rightarrow> world \<Rightarrow> world res" where
  "set_tgfid_type droot t w = set_bytes (path_tgfid_type_pref droot) [t] w"

definition init_tgfid_type :: "string \<Rightarrow> world \<Rightarrow> world res" where
  "init_tgfid_type droot w =
     (if \<not> file_exists w (path_tgfid_type_pref droot) then set_tgfid_type droot 2 w else Ok w)"

definition set_basic_tgfid :: "UserData \<Rightarrow> world \<Rightarrow> world res" where
  "set_basic_tgfid u w = set_tgfid_type (data_root_majv u) 2 w"

definition set_super_tgfid :: "UserData \<Rightarrow> world \<Rightarrow> world res" where
  "set_super_tgfid u w = set_tgfid_type (data_root_majv u) 3 w"

text \<open>
  \<open>filesystem::copy\<close> with \<open>overwrite_existing\<close>; a missing source throws, which nothing
  catches (\<open>None\<close>).
\<close>

definition prepare_filters_tmp :: "UserData \<Rightarrow> world \<Rightarrow> (bool \<times> world) option" where
  "prepare_filters_tmp u w =
     (case files w (path_filters u) of
        None \<Rightarrow> None
      | Some c \<Rightarrow> Some (True, write_file (path_filters_tmp u) c w))"

section \<open>Construction and destruction\<close>

definition default_filters :: string where
  "default_filters =
     (''[[focus-filter]]'' @ [CHR 0x0A]) @
     (''titles = []'' @ [CHR 0x0A]) @
     (''no-titles = []'' @ [CHR 0x0A]) @
     (''senders = []'' @ [CHR 0x0A]) @
     (''no-senders = []'' @ [CHR 0x0A]) @
     (''keywords = ['' @ [CHR 0x22] @ ''tg-focus'' @ [CHR 0x22] @ '']'' @ [CHR 0x0A]) @
     (''no-keywords = []'' @ [CHR 0x0A])"

definition create_if_missing :: "string \<Rightarrow> string \<Rightarrow> world \<Rightarrow> world" where
  "create_if_missing p bytes w =
     (if file_exists w p then w
      else case fopen_w w p of None \<Rightarrow> w | Some w' \<Rightarrow> fwrite p bytes w')"

text \<open>
  The files of the data directory, in the order the constructor makes them. Only the writes to
  \<open>filters.toml\<close> and to \<open>tgfid_t\<close> use a stream that was not checked.
\<close>

definition init_files :: "UserData \<Rightarrow> world \<Rightarrow> (UserData \<times> world) res" where
  "init_files u w =
     (let w1 = create_directory (path_tddata u) w;
          w2 = touch (path_api_id u) w1;
          w3 = touch (path_api_hash u) w2;
          w4 = touch (path_auth_hint u) w3
      in res_bind
           (if file_exists w4 (path_filters u) then Ok w4
            else case fopen_a w4 (path_filters u) of
                   None \<Rightarrow> Undef
                 | Some w' \<Rightarrow> Ok (fwrite (path_filters u) default_filters w'))
           (\<lambda>w5.
              let lockp = path_div (data_root_majv u) ''filters.lock'';
                  (u6, w6) = (case fopen_w w5 lockp of
                                None \<Rightarrow> (u, w5)
                              | Some w' \<Rightarrow> (u\<lparr>lck_filters := Some lockp\<rparr>, w'));
                  w7 = (case fopen_w w6 (path_filters_tmp u) of None \<Rightarrow> w6 | Some w' \<Rightarrow> w');
                  w8 = create_if_missing (path_tgfid u) (replicate 8 (CHR 0xFF)) w7
              in res_bind (init_tgfid_type (data_root_majv u) w8)
                   (\<lambda>w9.
                      let w10 = create_if_missing (path_pref_lang u) [CHR 0x00] w9;
                          w11 = touch (path_log_parent u) w10;
                          w12 = touch (path_log_child u) w11;
                          w13 = touch (path_log_child_coll u) w12;
                          w14 = snd (unlock_stream (lck_droot u6) w13)
                      in Ok (u6, w14))))"

definition new_UserData ::
  "string option \<Rightarrow> string option \<Rightarrow> bool \<Rightarrow> world \<Rightarrow> (UserData \<times> world) res" where
  "new_UserData home_env may_pred_home reset w =
     (case (case may_pred_home of
              Some pred \<Rightarrow> Some (pred, create_directory pred w)
            | None \<Rightarrow> map_option (\<lambda>h. (h, w)) home_env) of
        None \<Rightarrow> Undef
      | Some (home_dir, w1) \<Rightarrow>
          (let droot0 = path_div home_dir DIR_DATAROOT;
               w2 = (if reset then remove_all droot0 w1 else w1);
               droot = path_div droot0 TF_VER_MAJOR;
               w3 = create_directory droot (create_directory droot0 w2);
               u0 = \<lparr>lck_droot = None, lck_filters = None, data_root_majv = droot\<rparr>;
               lockp = path_div droot ''droot.lock''
           in case fopen_w w3 lockp of
                None \<Rightarrow> Ok (u0, w3)
              | Some w4 \<Rightarrow>
                  (let u1 = u0\<lparr>lck_droot := Some lockp\<rparr>;
                       (locked, w5) = lock_stream (lck_droot u1) w4
                   in if \<not> locked then Ok (u1, w5) else init_files u1 w5)))"

text \<open>Closing a stream releases its lock.\<close>

definition UserData_dtor :: "UserData \<Rightarrow> world \<Rightarrow> world" where
  "UserData_dtor u w =
     (let w1 = (case lck_droot u of None \<Rightarrow> w | Some p \<Rightarrow> w\<lparr>held := held w - {p}\<rparr>)
      in case lck_filters u of None \<Rightarrow> w1 | Some p \<Rightarrow> w1\<lparr>held := held w1 - {p}\<rparr>)"

definition MAX_SZ_LARGE_FILE :: nat where
  "MAX_SZ_LARGE_FILE = 1024 * 500"

definition is_too_large :: "world \<Rightarrow> string \<Rightarrow> bool" where
  "is_too_large w p =
     (case files w p of Some c \<Rightarrow> length c > MAX_SZ_LARGE_FILE | None \<Rightarrow> False)"

section \<open>Fields\<close>

text \<open>
  A setting kept in one file: the setter changes nothing but the contents of that file, and what the
  getter returns depends on the contents of that file alone. \<open>able\<close> is when the setter can
  work at all, \<open>wr\<close> the bytes it writes for the values in \<open>ok\<close>, \<open>rd\<close> the
  reading.
\<close>

locale file_field =
  fixes loc :: "UserData \<Rightarrow> string"
    and able :: "UserData \<Rightarrow> world \<Rightarrow> bool"
    and put :: "UserData \<Rightarrow> 'v \<Rightarrow> world \<Rightarrow> world res"
    and get :: "UserData \<Rightarrow> world \<Rightarrow> 'v res"
    and ok :: "'v \<Rightarrow> bool"
    and wr :: "'v \<Rightarrow> string"
    and rd :: "string \<Rightarrow> 'v"
  assumes put_able: "able u w \<Longrightarrow> ok v \<Longrightarrow>
      \<exists>w'. put u v w = Ok w' \<and> files w' = (files w)(loc u \<mapsto> wr v) \<and> deny w' = deny w"
    and able_open: "able u w \<Longrightarrow> \<not> deny w (loc u)"
    and get_rd: "\<not> deny w (loc u) \<Longrightarrow> files w (loc u) = Some c \<Longrightarrow> get u w = Ok (rd c)"
    and rd_wr: "ok v \<Longrightarrow> rd (wr v) = v"
begin

lemma get_put:
  assumes "able u w" and "ok v"
  shows "res_bind (put u v w) (get u) = Ok v"
proof -
  obtain w' where w': "put u v w = Ok w'" "files w' = (files w)(loc u \<mapsto> wr v)" "deny w' = deny w"
    using put_able [OF assms] by blast
  with get_rd [of w' u "wr v"] able_open [OF assms(1)] show ?thesis by (simp add: rd_wr [OF assms(2)])
qed

text \<open>A write to any other file leaves the reading alone.\<close>

lemma get_other:
  assumes "\<not> deny w (loc u)" and "files w (loc u) = Some c"
    and "files w' = (files w)(p \<mapsto> bytes)" and "deny w' = deny w" and "p \<noteq> loc u"
  shows "get u w' = get u w"
  using assms get_rd [of w u c] get_rd [of w' u c] by simp

end

lemma set_bytes_write:
  "\<not> deny w p \<Longrightarrow> set_bytes p bs w = Ok (write_file p (map char_of_byte bs) w)"
  by (simp add: set_bytes_def fopen_w_def fwrite_def write_file_def)

lemma bytes_chars [simp]: "map byte_of_char (map char_of_byte bs) = bs"
  by (simp add: comp_def)

definition unreadable_size :: "nat \<Rightarrow> bool" where
  "unreadable_size n = (n = 4096 \<or> n \<ge> 1048576)"

definition readable :: "string \<Rightarrow> string" where
  "readable c = (if unreadable_size (length c) then ''-'' else c)"

lemma read_readable:
  "res_map value_or_dash (read_to_string (Some c)) = Ok (readable c)"
  by (simp add: file_reader_defs readable_def unreadable_size_def value_or_dash_def)

lemma read_bind: "read_to_string (Some c) = Ok r \<Longrightarrow> value_or_dash r = readable c"
  using read_readable [of c] by simp

lemma readable_small [simp]: "length c < 4096 \<Longrightarrow> readable c = c"
  by (simp add: readable_def unreadable_size_def)

lemmas field_defs = with_stream_def fopen_r_def fopen_w_def write_file_def fwrite_def

interpretation api_id: file_field path_api_id "\<lambda>u w. \<not> deny w (path_api_id u)" set_api_id get_api_id
  "\<lambda>_. True" "\<lambda>v. map char_of_byte (le32 v)" "\<lambda>c. un_le32 (map byte_of_char c)"
  by unfold_locales
    (simp_all add: set_api_id_def get_api_id_def set_bytes_write field_defs le32.dec_enc del: map_map)

interpretation tgfid: file_field path_tgfid "\<lambda>u w. \<not> deny w (path_tgfid u)" set_tgfid get_tgfid
  "\<lambda>_. True" "\<lambda>v. map char_of_byte (le64 v)" "\<lambda>c. un_le64 (map byte_of_char c)"
  by unfold_locales
    (simp_all add: set_tgfid_def get_tgfid_def set_bytes_write field_defs le64.dec_enc del: map_map)

interpretation pref_lang: file_field path_pref_lang "\<lambda>u w. \<not> deny w (path_pref_lang u)" set_pref_lang
  get_pref_lang "\<lambda>_. True" "\<lambda>v. [char_of_byte v]" "\<lambda>c. first_byte (map byte_of_char c)"
  by unfold_locales
    (simp_all add: set_pref_lang_def get_pref_lang_def set_bytes_write field_defs first_byte_def)

interpretation tgfid_type: file_field "\<lambda>u. path_tgfid_type_pref (data_root_majv u)"
  "\<lambda>u w. \<not> deny w (path_tgfid_type_pref (data_root_majv u))"
  "\<lambda>u. set_tgfid_type (data_root_majv u)" "\<lambda>u. get_tgfid_type (data_root_majv u)" "\<lambda>_. True"
  "\<lambda>v. [char_of_byte v]" "\<lambda>c. first_byte (map byte_of_char c)"
  by unfold_locales
    (simp_all add: set_tgfid_type_def get_tgfid_type_def set_bytes_write field_defs first_byte_def)

interpretation auth_hint: file_field path_auth_hint "\<lambda>u w. \<not> deny w (path_auth_hint u)" set_auth_hint
  get_auth_hint "\<lambda>_. True" "\<lambda>v. if v then ''a'' else ''u''" "\<lambda>c. readable c = ''a''"
proof
  fix w :: world and u and c
  assume "\<not> deny w (path_auth_hint u)" and "files w (path_auth_hint u) = Some c"
  then show "get_auth_hint u w = Ok (readable c = ''a'')"
    using read_bind [of c]
    by (cases "read_to_string (Some c)") (auto simp: get_auth_hint_def fopen_r_def file_reader_defs)
qed (auto simp: set_auth_hint_def field_defs)

interpretation api_hash: file_field path_api_hash "\<lambda>u w. \<not> deny w (path_api_hash u)" set_api_hash
  get_api_hash "\<lambda>v. v \<noteq> [] \<and> \<not> unreadable_size (length v) \<and> trim v = v" "\<lambda>v. v"
  "\<lambda>c. trim (readable c)"
proof
  fix w :: world and u and c
  assume "\<not> deny w (path_api_hash u)" and "files w (path_api_hash u) = Some c"
  then show "get_api_hash u w = Ok (trim (readable c))"
    using read_bind [of c]
    by (cases "read_to_string (Some c)") (auto simp: get_api_hash_def fopen_r_def file_reader_defs)
qed (auto simp: set_api_hash_def field_defs readable_def)

interpretation filters_file: file_field path_filters
  "\<lambda>u w. \<not> deny w (path_filters u) \<and> lck_filters u \<noteq> None \<and> flock_ok w" set_filters get_filters
  "\<lambda>v. v \<noteq> [] \<and> \<not> unreadable_size (length v)" "\<lambda>v. v" readable
proof
  fix w :: world and u and c
  assume "\<not> deny w (path_filters u)" and "files w (path_filters u) = Some c"
  then show "get_filters u w = Ok (readable c)"
    by (simp only: get_filters_def fopen_r_def read_readable if_False)
qed (auto simp: set_filters_def lock_stream_def unlock_stream_def field_defs readable_def)

section \<open>The directory as one record of settings\<close>

record settings =
  s_api_id :: i32
  s_api_hash :: string
  s_auth_hint :: bool
  s_filters :: string
  s_tgfid :: i64
  s_lang :: Lang
  s_type :: u8

datatype update =
    SetApiId i32
  | SetApiHash string
  | SetAuthHint bool
  | SetFilters string
  | SetTgfid i64
  | SetLang Lang
  | SetBasic
  | SetSuper

fun apply_update :: "UserData \<Rightarrow> update \<Rightarrow> world \<Rightarrow> world res" where
  "apply_update u (SetApiId v) w = set_api_id u v w"
| "apply_update u (SetApiHash v) w = set_api_hash u v w"
| "apply_update u (SetAuthHint v) w = set_auth_hint u v w"
| "apply_update u (SetFilters v) w = set_filters u v w"
| "apply_update u (SetTgfid v) w = set_tgfid u v w"
| "apply_update u (SetLang v) w = set_pref_lang u v w"
| "apply_update u SetBasic w = set_basic_tgfid u w"
| "apply_update u SetSuper w = set_super_tgfid u w"

fun abs_update :: "update \<Rightarrow> settings \<Rightarrow> settings" where
  "abs_update (SetApiId v) s = s\<lparr>s_api_id := v\<rparr>"
| "abs_update (SetApiHash v) s = (if v = [] then s else s\<lparr>s_api_hash := trim (readable v)\<rparr>)"
| "abs_update (SetAuthHint v) s = s\<lparr>s_auth_hint := v\<rparr>"
| "abs_update (SetFilters v) s = (if v = [] then s else s\<lparr>s_filters := readable v\<rparr>)"
| "abs_update (SetTgfid v) s = s\<lparr>s_tgfid := v\<rparr>"
| "abs_update (SetLang v) s = s\<lparr>s_lang := v\<rparr>"
| "abs_update SetBasic s = s\<lparr>s_type := 2\<rparr>"
| "abs_update SetSuper s = s\<lparr>s_type := 3\<rparr>"

text \<open>Reading every setting through its getter.\<close>

definition view :: "UserData \<Rightarrow> world \<Rightarrow> settings res" where
  "view u w =
     res_bind (get_api_id u w) (\<lambda>a. res_bind (get_api_hash u w) (\<lambda>h.
     res_bind (get_auth_hint u w) (\<lambda>b. res_bind (get_filters u w) (\<lambda>f.
     res_bind (get_tgfid u w) (\<lambda>t. res_bind (get_pref_lang u w) (\<lambda>l.
     res_bind (get_tgfid_type (data_root_majv u) w) (\<lambda>y.
       Ok \<lparr>s_api_id = a, s_api_hash = h, s_auth_hint = b, s_filters = f, s_tgfid = t, s_lang = l,
           s_type = y\<rparr>)))))))"

definition data_paths :: "UserData \<Rightarrow> string list" where
  "data_paths u =
     [path_api_id u, path_api_hash u, path_auth_hint u, path_filters u, path_tgfid u,
      path_pref_lang u, path_tgfid_type_pref (data_root_majv u)]"

definition data_ok :: "UserData \<Rightarrow> world \<Rightarrow> bool" where
  "data_ok u w =
     (list_all (\<lambda>p. \<not> deny w p \<and> files w p \<noteq> None) (data_paths u) \<and>
      lck_filters u \<noteq> None \<and> flock_ok w)"

lemma path_div_eq_iff:
  assumes "hd a \<noteq> CHR ''/''" and "hd b \<noteq> CHR ''/''"
  shows "path_div r a = path_div r b \<longleftrightarrow> a = b"
  using assms by (auto simp: path_div_def)

lemma data_paths_distinct: "distinct (data_paths u)"
  by (simp add: data_paths_def path_defs path_div_eq_iff)

lemma view_eq:
  assumes "data_ok u w"
  shows "view u w = Ok
    \<lparr>s_api_id = un_le32 (map byte_of_char (the (files w (path_api_id u)))),
     s_api_hash = trim (readable (the (files w (path_api_hash u)))),
     s_auth_hint = (readable (the (files w (path_auth_hint u))) = ''a''),
     s_filters = readable (the (files w (path_filters u))),
     s_tgfid = un_le64 (map byte_of_char (the (files w (path_tgfid u)))),
     s_lang = first_byte (map byte_of_char (the (files w (path_pref_lang u)))),
     s_type = first_byte (map byte_of_char (the (files w (path_tgfid_type_pref (data_root_majv u)))))\<rparr>"
  using assms
  by (auto simp: view_def data_ok_def data_paths_def api_id.get_rd api_hash.get_rd auth_hint.get_rd
      filters_file.get_rd tgfid.get_rd pref_lang.get_rd tgfid_type.get_rd)

lemma update_files:
  assumes "data_ok u w"
  shows "\<exists>w'. apply_update u c w = Ok w' \<and> deny w' = deny w \<and> flock_ok w' = flock_ok w \<and>
    files w' =
      (case c of
         SetApiId v \<Rightarrow> (files w)(path_api_id u \<mapsto> map char_of_byte (le32 v))
       | SetApiHash v \<Rightarrow> if v = [] then files w else (files w)(path_api_hash u \<mapsto> v)
       | SetAuthHint v \<Rightarrow> (files w)(path_auth_hint u \<mapsto> (if v then ''a'' else ''u''))
       | SetFilters v \<Rightarrow> if v = [] then files w else (files w)(path_filters u \<mapsto> v)
       | SetTgfid v \<Rightarrow> (files w)(path_tgfid u \<mapsto> map char_of_byte (le64 v))
       | SetLang v \<Rightarrow> (files w)(path_pref_lang u \<mapsto> [char_of_byte v])
       | SetBasic \<Rightarrow> (files w)(path_tgfid_type_pref (data_root_majv u) \<mapsto> [char_of_byte 2])
       | SetSuper \<Rightarrow> (files w)(path_tgfid_type_pref (data_root_majv u) \<mapsto> [char_of_byte 3]))"
  using assms
  by (cases c)
    (auto simp: data_ok_def data_paths_def set_api_id_def set_tgfid_def set_pref_lang_def
      set_basic_tgfid_def set_super_tgfid_def set_tgfid_type_def set_bytes_write set_api_hash_def
      set_auth_hint_def set_filters_def lock_stream_def unlock_stream_def field_defs)

lemma update_view:
  assumes "data_ok u w"
  shows "\<exists>w'. apply_update u c w = Ok w' \<and> data_ok u w' \<and>
           view u w' = res_map (abs_update c) (view u w)"
proof -
  obtain w' where w': "apply_update u c w = Ok w'" "deny w' = deny w" "flock_ok w' = flock_ok w"
    and fs: "files w' =
      (case c of
         SetApiId v \<Rightarrow> (files w)(path_api_id u \<mapsto> map char_of_byte (le32 v))
       | SetApiHash v \<Rightarrow> if v = [] then files w else (files w)(path_api_hash u \<mapsto> v)
       | SetAuthHint v \<Rightarrow> (files w)(path_auth_hint u \<mapsto> (if v then ''a'' else ''u''))
       | SetFilters v \<Rightarrow> if v = [] then files w else (files w)(path_filters u \<mapsto> v)
       | SetTgfid v \<Rightarrow> (files w)(path_tgfid u \<mapsto> map char_of_byte (le64 v))
       | SetLang v \<Rightarrow> (files w)(path_pref_lang u \<mapsto> [char_of_byte v])
       | SetBasic \<Rightarrow> (files w)(path_tgfid_type_pref (data_root_majv u) \<mapsto> [char_of_byte 2])
       | SetSuper \<Rightarrow> (files w)(path_tgfid_type_pref (data_root_majv u) \<mapsto> [char_of_byte 3]))"
    using update_files [OF assms, of c] by blast
  have ok: "data_ok u w'"
    using assms w' fs by (cases c) (auto simp: data_ok_def data_paths_def)
  have "view u w' = res_map (abs_update c) (view u w)"
    unfolding view_eq [OF assms] view_eq [OF ok] fs
    using data_paths_distinct [of u]
    by (cases c)
      (auto simp: data_paths_def le32.dec_enc le64.dec_enc first_byte_def simp del: map_map)
  with w' ok show ?thesis by blast
qed

text \<open>
  C17: The data directory implements a record of settings: once its files exist, every setter
  returns, keeps the directory usable, and changes in the readings of all getters exactly its own
  setting, to the value given. (A file whose size the reader cannot handle reads as a dash.)
\<close>

theorem settings_refinement:
  assumes "data_ok u w"
  shows "\<exists>w'. apply_update u c w = Ok w' \<and> data_ok u w' \<and>
           view u w' = res_map (abs_update c) (view u w)"
  using assms by (rule update_view)

lemma settings_refinement_witness:
  "\<exists>u w w'. set_tgfid u (- 5) w = Ok w' \<and> data_ok u w' \<and>
     view u w' = Ok \<lparr>s_api_id = 0, s_api_hash = [], s_auth_hint = False, s_filters = [], s_tgfid = - 5,
       s_lang = 0, s_type = 0\<rparr>"
proof -
  let ?u = "\<lparr>lck_droot = None, lck_filters = Some ''l'', data_root_majv = ''/h''\<rparr>"
  let ?w = "\<lparr>files = (\<lambda>_. Some []), dirs = {}, deny = (\<lambda>_. False), flock_ok = True, held = {}\<rparr>"
  have "data_ok ?u ?w" by (simp add: data_ok_def data_paths_def)
  moreover have "un_le32 [] = 0" "un_le64 [] = 0"
    by (simp_all add: un_le32_def un_le64_def Let_def eval_nat_numeral)
  ultimately show ?thesis
    using settings_refinement [of ?u ?w "SetTgfid (- 5)"] view_eq [of ?u ?w]
    by (auto simp: first_byte_def trim_def rtrim_def ltrim_def)
qed

section \<open>Construction\<close>

text \<open>A world in which nothing is refused; preserved by every step of the constructor.\<close>

definition calm :: "world \<Rightarrow> bool" where
  "calm w = ((\<forall>p. \<not> deny w p) \<and> flock_ok w)"

lemma create_directory_simps [simp]:
  "files (create_directory p w) = files w" "calm (create_directory p w) = calm w"
  "held (create_directory p w) = held w"
  by (simp_all add: create_directory_def calm_def)

lemma touch_simps [simp]:
  assumes "calm w"
  shows "files (touch p w) p = (case files w p of None \<Rightarrow> Some [] | Some c \<Rightarrow> Some c)"
    and "q \<noteq> p \<Longrightarrow> files (touch p w) q = files w q"
    and "calm (touch p w)" and "held (touch p w) = held w"
  using assms by (auto simp: touch_def fopen_a_def calm_def split: option.splits)

lemma create_if_missing_simps [simp]:
  assumes "calm w"
  shows "files (create_if_missing p b w) p = (case files w p of None \<Rightarrow> Some b | Some c \<Rightarrow> Some c)"
    and "q \<noteq> p \<Longrightarrow> files (create_if_missing p b w) q = files w q"
    and "calm (create_if_missing p b w)" and "held (create_if_missing p b w) = held w"
  using assms
  by (auto simp: create_if_missing_def file_exists_def fopen_w_def fwrite_def calm_def
      split: option.splits)

lemma init_tgfid_type_calm:
  assumes "calm w"
  shows "init_tgfid_type r w = Ok (create_if_missing (path_tgfid_type_pref r) [char_of_byte 2] w)"
  using assms
  by (auto simp: init_tgfid_type_def set_tgfid_type_def set_bytes_write create_if_missing_def
      file_exists_def fopen_w_def fwrite_def write_file_def calm_def)

lemma filters_step_calm:
  assumes "calm w"
  shows "(if file_exists w p then Ok w
          else case fopen_a w p of None \<Rightarrow> Undef | Some w' \<Rightarrow> Ok (fwrite p b w')) =
         Ok (create_if_missing p b w)"
  using assms
  by (auto simp: create_if_missing_def file_exists_def fopen_a_def fopen_w_def fwrite_def calm_def)

definition with_defaults :: "(string \<Rightarrow> string option) \<Rightarrow> (string \<times> string) list \<Rightarrow> string option list" where
  "with_defaults fs pds = map (\<lambda>(p, d). case fs p of None \<Rightarrow> Some d | Some c \<Rightarrow> Some c) pds"

definition default_contents :: "string list" where
  "default_contents =
     [[], [], [], default_filters, replicate 8 (CHR 0xFF), [CHR 0x00], [char_of_byte 2]]"

lemma fopen_w_calm [simp]: "calm w \<Longrightarrow> fopen_w w p = Some (write_file p [] w)"
  by (simp add: fopen_w_def write_file_def calm_def)

lemma write_file_simps [simp]:
  "files (write_file p b w) = (files w)(p \<mapsto> b)" "calm (write_file p b w) = calm w"
  "held (write_file p b w) = held w"
  by (simp_all add: write_file_def calm_def)

lemma unlock_calm [simp]:
  "calm w \<Longrightarrow> snd (unlock_stream (Some l) w) = w\<lparr>held := held w - {l}\<rparr>"
  "calm (w\<lparr>held := h\<rparr>) = calm w"
  by (simp_all add: unlock_stream_def calm_def)

text \<open>With nothing refused, the constructor's body is one chain of total steps.\<close>

lemma init_files_chain:
  assumes "calm w" and "lck_droot u = Some l"
  shows "init_files u w =
    (let w4 = touch (path_auth_hint u) (touch (path_api_hash u) (touch (path_api_id u)
                (create_directory (path_tddata u) w)));
         w5 = create_if_missing (path_filters u) default_filters w4;
         lockp = path_div (data_root_majv u) ''filters.lock'';
         w8 = create_if_missing (path_tgfid u) (replicate 8 (CHR 0xFF))
                (write_file (path_filters_tmp u) [] (write_file lockp [] w5));
         w10 = create_if_missing (path_pref_lang u) [CHR 0x00]
                 (create_if_missing (path_tgfid_type_pref (data_root_majv u)) [char_of_byte 2] w8);
         w13 = touch (path_log_child_coll u) (touch (path_log_child u) (touch (path_log_parent u) w10))
     in Ok (u\<lparr>lck_filters := Some lockp\<rparr>, w13\<lparr>held := held w13 - {l}\<rparr>))"
  unfolding init_files_def
  by (simp add: Let_def filters_step_calm init_tgfid_type_calm assms)

lemma init_files_calm:
  assumes "calm w" and "lck_droot u = Some l"
  shows "\<exists>u' w'. init_files u w = Ok (u', w') \<and> calm w' \<and> data_root_majv u' = data_root_majv u \<and>
    lck_filters u' \<noteq> None \<and> held w' = held w - {l} \<and>
    map (files w') (data_paths u) = with_defaults (files w) (zip (data_paths u) default_contents)"
  unfolding init_files_chain [OF assms]
  using assms(1)
  by (simp add: Let_def with_defaults_def default_contents_def data_paths_def path_defs
      path_div_eq_iff)

definition droot_of :: "string \<Rightarrow> string" where
  "droot_of home = path_div (path_div home DIR_DATAROOT) TF_VER_MAJOR"

lemma data_root_paths:
  assumes "data_root_majv u = r" and "data_root_majv v = r"
  shows "data_paths u = data_paths v"
  using assms by (simp add: data_paths_def path_defs)

lemma lock_not_data:
  "path_div (data_root_majv u) ''droot.lock'' \<notin> set (data_paths u)"
  by (simp add: data_paths_def path_defs path_div_eq_iff)

text \<open>
  C31: Opening the data directory without a reset: when nothing is refused, construction succeeds,
  the directory is usable, the directory lock is released, every setting file that existed keeps its
  contents and every missing one gets its default (filters for the word tg-focus, chat id -1,
  unknown language, a basic group).
\<close>

theorem construction_preserves_data:
  assumes "calm w"
  shows "\<exists>u w'. new_UserData (Some home) None False w = Ok (u, w') \<and> data_root_majv u = droot_of home \<and>
           data_ok u w' \<and> path_div (droot_of home) ''droot.lock'' \<notin> held w' \<and>
           map (files w') (data_paths u) =
             with_defaults (files w) (zip (data_paths u) default_contents)"
proof -
  let ?r = "droot_of home"
  let ?l = "path_div ?r ''droot.lock''"
  let ?u1 = "\<lparr>lck_droot = Some ?l, lck_filters = None, data_root_majv = ?r\<rparr>"
  let ?w4 = "write_file ?l [] (create_directory ?r (create_directory (path_div home DIR_DATAROOT) w))"
  let ?w5 = "?w4\<lparr>held := insert ?l (held ?w4)\<rparr>"
  have calm5: "calm ?w5" using assms by simp
  have "flock_ok ?w4" using assms by (simp add: calm_def write_file_def create_directory_def)
  then have new: "new_UserData (Some home) None False w = init_files ?u1 ?w5"
    using assms by (simp add: new_UserData_def droot_of_def [symmetric] lock_stream_def Let_def)
  obtain u w' where res: "init_files ?u1 ?w5 = Ok (u, w')" "calm w'" "data_root_majv u = ?r"
    "lck_filters u \<noteq> None" "held w' = held ?w5 - {?l}"
    and fs: "map (files w') (data_paths ?u1) =
      with_defaults (files ?w5) (zip (data_paths ?u1) default_contents)"
    using init_files_calm [OF calm5, of ?u1 ?l] by auto
  have ps: "data_paths u = data_paths ?u1" by (rule data_root_paths) (simp_all add: res)
  have "?l \<notin> set (data_paths ?u1)" using lock_not_data [of ?u1] by simp
  then have dflt: "with_defaults (files ?w5) (zip (data_paths ?u1) default_contents) =
      with_defaults (files w) (zip (data_paths ?u1) default_contents)"
    by (auto simp: with_defaults_def dest: set_zip_leftD)
  have "list_all (\<lambda>x. x \<noteq> None) (map (files w') (data_paths u))"
    unfolding ps fs by (auto simp: with_defaults_def list_all_iff split: option.splits)
  then have "data_ok u w'"
    using res(2,4) by (simp add: data_ok_def calm_def list_all_iff)
  with new res fs dflt ps show ?thesis by auto
qed

lemma construction_witness:
  "\<exists>u w'. new_UserData (Some ''/home/me'') None False
       \<lparr>files = [''/home/me/.tgfocus/3/filters.toml'' \<mapsto> ''x = 1''], dirs = {}, deny = (\<lambda>_. False),
        flock_ok = True, held = {}\<rparr> = Ok (u, w') \<and>
     data_root_majv u = ''/home/me/.tgfocus/3'' \<and> data_ok u w' \<and>
     files w' (path_filters u) = Some ''x = 1'' \<and> files w' (path_pref_lang u) = Some [CHR 0x00]"
proof -
  let ?w = "\<lparr>files = [''/home/me/.tgfocus/3/filters.toml'' \<mapsto> ''x = 1''], dirs = {},
    deny = (\<lambda>_. False), flock_ok = True, held = {}\<rparr>"
  have "calm ?w" by (simp add: calm_def)
  from construction_preserves_data [OF this, of "''/home/me''"] obtain u w' where
    n: "new_UserData (Some ''/home/me'') None False ?w = Ok (u, w')"
      "data_root_majv u = ''/home/me/.tgfocus/3''" "data_ok u w'"
    and fs: "map (files w') (data_paths u) = with_defaults (files ?w) (zip (data_paths u) default_contents)"
    by (auto simp: droot_of_def path_div_def DIR_DATAROOT_def TF_VER_MAJOR_def)
  have "files w' (path_filters u) = Some ''x = 1'' \<and> files w' (path_pref_lang u) = Some [CHR 0x00]"
    using fs n(2)
    by (simp add: with_defaults_def data_paths_def path_defs default_contents_def path_div_def)
  with n show ?thesis by blast
qed

text \<open>
  Storing filters takes and releases the filter lock, and refuses to write without it; but
  when the filter file cannot be opened the function returns with the lock still held.
\<close>

theorem set_filters_lock:
  assumes "v \<noteq> []"
  shows "set_filters u v w =
    (if lck_filters u = None \<or> \<not> flock_ok w then Ok w
     else if deny w (path_filters u) then Ok (w\<lparr>held := insert (the (lck_filters u)) (held w)\<rparr>)
     else Ok (write_file (path_filters u) v (w\<lparr>held := held w - {the (lck_filters u)}\<rparr>)))"
  using assms
  by (auto simp: set_filters_def lock_stream_def unlock_stream_def fopen_w_def fwrite_def
      write_file_def split: option.splits)

lemma set_filters_lock_witness:
  "set_filters \<lparr>lck_droot = None, lck_filters = Some ''l'', data_root_majv = ''/h''\<rparr> ''v''
     \<lparr>files = (\<lambda>_. None), dirs = {}, deny = (\<lambda>p. p = ''/h/filters.toml''), flock_ok = True, held = {}\<rparr> =
   Ok \<lparr>files = (\<lambda>_. None), dirs = {}, deny = (\<lambda>p. p = ''/h/filters.toml''), flock_ok = True, held = {''l''}\<rparr>"
  by (subst set_filters_lock) (simp_all add: path_filters_def path_div_def)

end
