(* ===== verification/Log.thy ===== *)
theory Log
  imports UserData TgMsg
begin

text \<open>
  \<open>src/src/log.hh\<close> and \<open>log.cc\<close>: log levels, the line that is written, the choice of
  the log file with its truncation, and \<open>as_hex_list\<close>. The values printed are given as their
  text; the variadic templates become a list.
\<close>

section \<open>Levels\<close>

datatype LogLv = ERROR | WARN | INFO | DEBUG

fun lv_num :: "LogLv \<Rightarrow> nat" where
  "lv_num ERROR = 1"
| "lv_num WARN = 2"
| "lv_num INFO = 3"
| "lv_num DEBUG = 4"

instantiation LogLv :: linorder
begin

definition less_eq_LogLv :: "LogLv \<Rightarrow> LogLv \<Rightarrow> bool" where
  "less_eq_LogLv a b = (lv_num a \<le> lv_num b)"

definition less_LogLv :: "LogLv \<Rightarrow> LogLv \<Rightarrow> bool" where
  "less_LogLv a b = (lv_num a < lv_num b)"

instance
proof
  fix a b :: LogLv
  assume "a \<le> b" and "b \<le> a"
  then show "a = b" by (cases a; cases b) (simp_all add: less_eq_LogLv_def)
qed (auto simp: less_eq_LogLv_def less_LogLv_def)

end

definition g_loglv_init :: LogLv where
  "g_loglv_init = INFO"

fun lv_str :: "LogLv \<Rightarrow> string" where
  "lv_str ERROR = ''E''"
| "lv_str WARN = ''W''"
| "lv_str INFO = ''I''"
| "lv_str DEBUG = ''D''"

section \<open>Lines\<close>

fun print_all :: "string list \<Rightarrow> string" where
  "print_all [] = []"
| "print_all [t] = t"
| "print_all (t # ts) = t @ '','' @ print_all ts"

text \<open>
  The current time as \<open>"%FT%TZ%z"\<close> into a buffer of 26 bytes, which this format fills for
  four-digit years.
\<close>

definition curr_tstamp :: "timezone \<Rightarrow> u32 \<Rightarrow> string" where
  "curr_tstamp tz now =
     (let off = fst (tz now);
          secs = uint now + off;
          c = civil_of_days (secs div 86400);
          s = secs mod 86400;
          offmin = abs off div 60
      in show_int (year c) @ ''-'' @ show2 (month c) @ ''-'' @ show2 (day c) @ ''T'' @
         show2 (s div 3600) @ '':'' @ show2 (s div 60 mod 60) @ '':'' @ show2 (s mod 60) @ ''Z'' @
         (if off < 0 then ''-'' else ''+'') @ show2 (offmin div 60) @ show2 (offmin mod 60))"

text \<open>What a call appends to its stream under the global level \<open>g\<close>.\<close>

definition stream_log :: "LogLv \<Rightarrow> LogLv \<Rightarrow> string \<Rightarrow> string list \<Rightarrow> string" where
  "stream_log g lv tstamp args =
     (if g < lv then []
      else ''[tgf '' @ lv_str lv @ ''] '' @ tstamp @ '' '' @ print_all args @ [CHR 0x0A])"

text \<open>The variants that write to standard output, of which the text so far is \<open>out\<close>.\<close>

definition loge :: "LogLv \<Rightarrow> string \<Rightarrow> string list \<Rightarrow> string \<Rightarrow> string" where
  "loge g tstamp args out = out @ stream_log g ERROR tstamp args"

definition logw :: "LogLv \<Rightarrow> string \<Rightarrow> string list \<Rightarrow> string \<Rightarrow> string" where
  "logw g tstamp args out = out @ stream_log g WARN tstamp args"

definition logi :: "LogLv \<Rightarrow> string \<Rightarrow> string list \<Rightarrow> string \<Rightarrow> string" where
  "logi g tstamp args out = out @ stream_log g INFO tstamp args"

definition logd :: "LogLv \<Rightarrow> string \<Rightarrow> string list \<Rightarrow> string \<Rightarrow> string" where
  "logd g tstamp args out = out @ stream_log g DEBUG tstamp args"

text \<open>How vectors and pairs are printed.\<close>

definition print_vector :: "('a \<Rightarrow> string) \<Rightarrow> 'a list \<Rightarrow> string" where
  "print_vector pr t = concat (map (\<lambda>ele. pr ele @ '','') t)"

definition print_pair :: "int \<times> int \<Rightarrow> string" where
  "print_pair t = ''<'' @ show_int (fst t) @ '','' @ show_int (snd t) @ ''>''"

section \<open>Log files\<close>

definition log_path :: "UserData \<Rightarrow> bool \<Rightarrow> u8 \<Rightarrow> string" where
  "log_path u is_child ch_grp =
     (if is_child then (if ch_grp = 1 then path_log_child_coll u else path_log_child u)
      else path_log_parent u)"

text \<open>Opening the stream: truncating when the file is too large, else appending.\<close>

definition get_log_file :: "UserData \<Rightarrow> bool \<Rightarrow> u8 \<Rightarrow> world \<Rightarrow> (string \<times> world) option" where
  "get_log_file u is_child ch_grp w =
     (let p = log_path u is_child ch_grp; needs_trunc = is_too_large w p
      in map_option (Pair p) (if needs_trunc then fopen_w w p else fopen_a w p))"

text \<open>
  A call of \<open>logfe_cg\<close> and its relatives: the file is opened whatever the level; a stream
  that failed to open swallows the line.
\<close>

definition logf_cg ::
  "LogLv \<Rightarrow> LogLv \<Rightarrow> UserData \<Rightarrow> bool \<Rightarrow> u8 \<Rightarrow> string \<Rightarrow> string list \<Rightarrow> world \<Rightarrow> world" where
  "logf_cg g lv u is_child ch_grp tstamp args w =
     (case get_log_file u is_child ch_grp w of
        None \<Rightarrow> w
      | Some (p, w') \<Rightarrow> fwrite p (stream_log g lv tstamp args) w')"

definition logfe_cg :: "LogLv \<Rightarrow> UserData \<Rightarrow> bool \<Rightarrow> u8 \<Rightarrow> string \<Rightarrow> string list \<Rightarrow> world \<Rightarrow> world" where
  "logfe_cg g = logf_cg g ERROR"

definition logfw_cg :: "LogLv \<Rightarrow> UserData \<Rightarrow> bool \<Rightarrow> u8 \<Rightarrow> string \<Rightarrow> string list \<Rightarrow> world \<Rightarrow> world" where
  "logfw_cg g = logf_cg g WARN"

definition logfi_cg :: "LogLv \<Rightarrow> UserData \<Rightarrow> bool \<Rightarrow> u8 \<Rightarrow> string \<Rightarrow> string list \<Rightarrow> world \<Rightarrow> world" where
  "logfi_cg g = logf_cg g INFO"

definition logfd_cg :: "LogLv \<Rightarrow> UserData \<Rightarrow> bool \<Rightarrow> u8 \<Rightarrow> string \<Rightarrow> string list \<Rightarrow> world \<Rightarrow> world" where
  "logfd_cg g = logf_cg g DEBUG"

definition logfe :: "LogLv \<Rightarrow> UserData \<Rightarrow> bool \<Rightarrow> string \<Rightarrow> string list \<Rightarrow> world \<Rightarrow> world" where
  "logfe g u is_child = logf_cg g ERROR u is_child 0"

definition logfw :: "LogLv \<Rightarrow> UserData \<Rightarrow> bool \<Rightarrow> string \<Rightarrow> string list \<Rightarrow> world \<Rightarrow> world" where
  "logfw g u is_child = logf_cg g WARN u is_child 0"

definition logfi :: "LogLv \<Rightarrow> UserData \<Rightarrow> bool \<Rightarrow> string \<Rightarrow> string list \<Rightarrow> world \<Rightarrow> world" where
  "logfi g u is_child = logf_cg g INFO u is_child 0"

definition logfd :: "LogLv \<Rightarrow> UserData \<Rightarrow> bool \<Rightarrow> string \<Rightarrow> string list \<Rightarrow> world \<Rightarrow> world" where
  "logfd g u is_child = logf_cg g DEBUG u is_child 0"

text \<open>The macros put the name of the source file and the line in front.\<close>

definition tulogfe :: "string \<Rightarrow> nat \<Rightarrow> LogLv \<Rightarrow> UserData \<Rightarrow> bool \<Rightarrow> string \<Rightarrow> string list \<Rightarrow> world \<Rightarrow> world" where
  "tulogfe TU l g u is_child tstamp args = logfe g u is_child tstamp (TU # show_nat l # args)"

definition tulogfi :: "string \<Rightarrow> nat \<Rightarrow> LogLv \<Rightarrow> UserData \<Rightarrow> bool \<Rightarrow> string \<Rightarrow> string list \<Rightarrow> world \<Rightarrow> world" where
  "tulogfi TU l g u is_child tstamp args = logfi g u is_child tstamp (TU # show_nat l # args)"

definition tulogfw :: "string \<Rightarrow> nat \<Rightarrow> LogLv \<Rightarrow> UserData \<Rightarrow> bool \<Rightarrow> string \<Rightarrow> string list \<Rightarrow> world \<Rightarrow> world" where
  "tulogfw TU l g u is_child tstamp args = logfw g u is_child tstamp (TU # show_nat l # args)"

definition tulogfd :: "string \<Rightarrow> nat \<Rightarrow> LogLv \<Rightarrow> UserData \<Rightarrow> bool \<Rightarrow> string \<Rightarrow> string list \<Rightarrow> world \<Rightarrow> world" where
  "tulogfd TU l g u is_child tstamp args = logfd g u is_child tstamp (TU # show_nat l # args)"

definition tulogfe_cg :: "string \<Rightarrow> nat \<Rightarrow> LogLv \<Rightarrow> UserData \<Rightarrow> bool \<Rightarrow> u8 \<Rightarrow> string \<Rightarrow> string list \<Rightarrow> world \<Rightarrow> world" where
  "tulogfe_cg TU l g u is_child cg tstamp args = logfe_cg g u is_child cg tstamp (TU # show_nat l # args)"

definition tulogfi_cg :: "string \<Rightarrow> nat \<Rightarrow> LogLv \<Rightarrow> UserData \<Rightarrow> bool \<Rightarrow> u8 \<Rightarrow> string \<Rightarrow> string list \<Rightarrow> world \<Rightarrow> world" where
  "tulogfi_cg TU l g u is_child cg tstamp args = logfi_cg g u is_child cg tstamp (TU # show_nat l # args)"

definition tulogfw_cg :: "string \<Rightarrow> nat \<Rightarrow> LogLv \<Rightarrow> UserData \<Rightarrow> bool \<Rightarrow> u8 \<Rightarrow> string \<Rightarrow> string list \<Rightarrow> world \<Rightarrow> world" where
  "tulogfw_cg TU l g u is_child cg tstamp args = logfw_cg g u is_child cg tstamp (TU # show_nat l # args)"

definition tulogfd_cg :: "string \<Rightarrow> nat \<Rightarrow> LogLv \<Rightarrow> UserData \<Rightarrow> bool \<Rightarrow> u8 \<Rightarrow> string \<Rightarrow> string list \<Rightarrow> world \<Rightarrow> world" where
  "tulogfd_cg TU l g u is_child cg tstamp args = logfd_cg g u is_child cg tstamp (TU # show_nat l # args)"

section \<open>Hexadecimal lists\<close>

definition hex_digit :: "nat \<Rightarrow> char" where
  "hex_digit n = ''0123456789abcdef'' ! n"

definition as_hex_list :: "u8 list \<Rightarrow> string" where
  "as_hex_list arr =
     ''['' @ concat (map (\<lambda>b. ''0x'' @ [hex_digit (unat b div 16), hex_digit (unat b mod 16)] @ '','') arr)
       @ '']''"

section \<open>Properties\<close>

lemma size_of_log: "files w p = Some c \<Longrightarrow> is_too_large w p \<longleftrightarrow> 512000 < length c"
  by (simp add: is_too_large_def MAX_SZ_LARGE_FILE_def)

text \<open>
  C40: A log call touches only the log file of its process and group, and bounds its growth: a file
  of at most 512000 bytes grows by the line, a larger one is restarted with the line, so no log file
  exceeds the limit by more than the last line. A line above the global level adds nothing.
\<close>

theorem log_file_bounded:
  assumes "\<not> deny w (log_path u ch grp)" and "files w (log_path u ch grp) = Some c"
  shows "files (logf_cg g lv u ch grp t args w) =
           (files w)(log_path u ch grp \<mapsto>
              (if length c \<le> 512000 then c else []) @ stream_log g lv t args) \<and>
         (lv \<le> g \<longleftrightarrow> stream_log g lv t args \<noteq> [])"
  using assms
  by (auto simp: logf_cg_def get_log_file_def Let_def size_of_log fopen_w_def fopen_a_def fwrite_def
      stream_log_def)

lemma log_file_bounded_witness:
  "files (logf_cg INFO DEBUG \<lparr>lck_droot = None, lck_filters = None, data_root_majv = ''/h''\<rparr> True 1 [] [''x'']
      \<lparr>files = (\<lambda>_. Some ''a''), dirs = {}, deny = (\<lambda>_. False), flock_ok = True, held = {}\<rparr>)
     ''/h/child_coll.log'' = Some ''a''"
  using log_file_bounded [of "\<lparr>files = (\<lambda>_. Some ''a''), dirs = {}, deny = (\<lambda>_. False), flock_ok = True, held = {}\<rparr>"
      "\<lparr>lck_droot = None, lck_filters = None, data_root_majv = ''/h''\<rparr>" True 1 "''a''" INFO DEBUG "[]" "[''x'']"]
  by (simp add: log_path_def path_log_child_coll_def path_div_def stream_log_def less_LogLv_def)

end
