(* ===== verification/Buffers.thy ===== *)
theory Buffers
  imports Prelude "HOL-Library.Multiset"
begin

text \<open>
  The interface of a shared message buffer: what a client that puts and takes messages may rely on,
  whatever the order in which the buffer hands them out. \<open>stack_buffer\<close> adds that the newest
  message comes first.
\<close>

datatype 'm buf_op = Put 'm | Take

text \<open>A run of operations: the buffer at the end and the messages taken, in order.\<close>

fun run_buf ::
  "('m \<Rightarrow> 'q \<Rightarrow> 'q) \<Rightarrow> ('q \<Rightarrow> 'm option \<times> 'q) \<Rightarrow> 'm buf_op list \<Rightarrow> 'q \<Rightarrow> 'm list \<times> 'q" where
  "run_buf put tk [] q = ([], q)"
| "run_buf put tk (Put m # ops) q = run_buf put tk ops (put m q)"
| "run_buf put tk (Take # ops) q =
     (let (r, q1) = tk q; (ms, q2) = run_buf put tk ops q1
      in (case r of None \<Rightarrow> ms | Some m \<Rightarrow> m # ms, q2))"

fun puts :: "'m buf_op list \<Rightarrow> 'm list" where
  "puts [] = []"
| "puts (Put m # ops) = m # puts ops"
| "puts (Take # ops) = puts ops"

lemma puts_map_Put [simp]: "puts (map Put ms) = ms"
  by (induction ms) auto

lemma run_buf_append:
  "run_buf put tk (xs @ ys) q =
     (let (a, q1) = run_buf put tk xs q; (b, q2) = run_buf put tk ys q1 in (a @ b, q2))"
proof (induction put tk xs q rule: run_buf.induct)
  case (3 put tk ops q)
  then show ?case by (auto simp: Let_def split: prod.splits option.splits)
qed auto

locale bag_buffer =
  fixes put :: "'m \<Rightarrow> 'q \<Rightarrow> 'q"
    and tk :: "'q \<Rightarrow> 'm option \<times> 'q"
    and bag :: "'q \<Rightarrow> 'm multiset"
  assumes bag_put: "bag (put m q) = add_mset m (bag q)"
    and tk_Some: "tk q = (Some m, q') \<Longrightarrow> bag q = add_mset m (bag q')"
    and tk_None: "tk q = (None, q') \<Longrightarrow> bag q = {#} \<and> bag q' = {#}"
begin

text \<open>Nothing is lost or made up: what was there and what was put is what was taken and what is left.\<close>

lemma conservation:
  "run_buf put tk ops q = (taken, q') \<Longrightarrow> bag q + mset (puts ops) = mset taken + bag q'"
proof (induction ops arbitrary: q taken)
  case (Cons opn ops)
  show ?case
  proof (cases opn)
    case (Put m)
    with Cons show ?thesis by (fastforce simp: bag_put)
  next
    case Take
    obtain r q1 where tk: "tk q = (r, q1)" by (cases "tk q") auto
    obtain ms where rest: "run_buf put tk ops q1 = (ms, q')"
      using Cons.prems Take tk by (auto simp: Let_def split: prod.splits)
    have "bag q1 + mset (puts ops) = mset ms + bag q'" by (rule Cons.IH [OF rest])
    with Cons.prems Take tk rest show ?thesis
      by (cases r) (auto dest: tk_Some tk_None)
  qed
qed auto

lemma tk_nonempty: "bag q \<noteq> {#} \<Longrightarrow> \<exists>m q'. tk q = (Some m, q')"
  using tk_None by (cases "tk q"; cases "fst (tk q)") fastforce+

end

locale stack_buffer =
  fixes put :: "'m \<Rightarrow> 'q \<Rightarrow> 'q"
    and tk :: "'q \<Rightarrow> 'm option \<times> 'q"
    and items :: "'q \<Rightarrow> 'm list"
  assumes items_put: "items (put m q) = m # items q"
    and items_Nil: "items q = [] \<Longrightarrow> \<exists>q'. tk q = (None, q') \<and> items q' = []"
    and items_Cons: "items q = m # ms \<Longrightarrow> \<exists>q'. tk q = (Some m, q') \<and> items q' = ms"
begin

lemma run_puts: "\<exists>q'. run_buf put tk (map Put ms @ ops) q = run_buf put tk ops q' \<and> items q' = rev ms @ items q"
proof (induction ms arbitrary: q)
  case (Cons m ms)
  from Cons [of "put m q"] show ?case by (auto simp: items_put)
qed auto

lemma run_takes:
  "\<exists>q'. run_buf put tk (replicate n Take) q = (take n (items q), q') \<and> items q' = drop n (items q)"
proof (induction n arbitrary: q)
  case (Suc n)
  show ?case
  proof (cases "items q")
    case Nil
    from items_Nil [OF this] obtain q1 where "tk q = (None, q1)" "items q1 = []" by blast
    with Suc [of q1] Nil show ?thesis by auto
  next
    case (Cons m ms)
    from items_Cons [OF this] obtain q1 where "tk q = (Some m, q1)" "items q1 = ms" by blast
    with Suc [of q1] Cons show ?thesis by auto
  qed
qed simp

text \<open>Taking as many as were put hands the messages out newest first.\<close>

lemma newest_first:
  "fst (run_buf put tk (map Put ms @ replicate (length ms) Take) q) = rev ms"
proof -
  obtain q' where q': "run_buf put tk (map Put ms @ replicate (length ms) Take) q =
      run_buf put tk (replicate (length ms) Take) q'" "items q' = rev ms @ items q"
    using run_puts by blast
  with run_takes [of "length ms" q'] show ?thesis by auto
qed

end

sublocale stack_buffer \<subseteq> bag_buffer put tk "\<lambda>q. mset (items q)"
proof
  fix q m q'
  assume tk: "tk q = (Some m, q')"
  then have "items q \<noteq> []" using items_Nil [of q] by auto
  then obtain x xs where "items q = x # xs" by (cases "items q") auto
  with items_Cons [OF this] tk show "mset (items q) = add_mset m (mset (items q'))" by auto
next
  fix q q'
  assume tk: "tk q = (None, q')"
  then have "items q = []" using items_Cons [of q] by (cases "items q") auto
  with items_Nil [OF this] tk show "mset (items q) = {#} \<and> mset (items q') = {#}" by auto
qed (simp add: items_put)

end
