(* ===== verification/Ipc.thy ===== *)
theory Ipc
  imports Log Buffers
begin

text \<open>
  Inter-process messages: \<open>src/src/errcode.hh\<close>, \<open>ipc_msg.hh\<close>, \<open>ipc_msg.cc\<close> and
  \<open>ipc_msg_queue.cc\<close>. A message travels as a frame of 64 bytes: three magic bytes, the type
  and the length of the extra arguments with the most significant byte first, and 55 bytes of
  arguments. Logging has no effect on these components and is left out.
\<close>

section \<open>Error codes\<close>

type_synonym ErrCode = u8

definition errcode_enumerators :: "string list" where
  "errcode_enumerators =
    [''NOERR'', ''IPCSERVER_SYSCALL_SOCKET'', ''IPCSERVER_SYSCALL_SOCKOPT'',
     ''IPCSERVER_SYSCALL_BIND'', ''IPCSERVER_SYSCALL_LISTEN'', ''IPCSERVER_SYSCALL_SOCKET2'',
     ''IPCSERVER_SYSCALL_BIND2'', ''IPCSERVER_SYSCALL_LISTEN2'', ''CONNLISTENER_SYSCALL_ACCEPT'',
     ''CONNLISTENER_SOCKREADY'', ''CONNLISTENER_SYSCALL_EPCREAT'', ''CONNLISTENER_SYSCALL_EPCTL'',
     ''CONNLISTENER_SYSCALL_EPCTL2'', ''CONNLISTENER_SYSCALL_EPWAIT'', ''CONNLISTENER_SYSCALL_THREAD'',
     ''IPCCONNHAND_SYSCALL_EPCREAT'', ''IPCCONNHAND_SYSCALL_EPCTL'', ''IPCCONNHAND_SYSCALL_EPWAIT'',
     ''IPCCONNHAND_SYSCALL_READ'', ''IPCCONNHAND_SYSCALL_SEND'', ''IPCCONNHAND_SYSCALL_SEND2'',
     ''IPCCLIENT_SYSCALL_SOCKET'', ''IPCCLIENT_SYSCALL_CONNECT'', ''IPCCLIENT_SYSCALL_SOCKET2'',
     ''IPCCLIENT_SYSCALL_CONNECT2'', ''IPCCLIENT_SYSCALL_READ'', ''IPCCLIENT_SYSCALL_WRITE'',
     ''IPCCLIENT_MUSTVALIDIPCMSG'', ''IPCMSG_MUSTVALIDIPCMSG'', ''IPCSRCINITER_SYSCALL_THREAD'',
     ''TGFOCUS_SYSCALL_THREAD'', ''TGFOCUS_SYSCALL_THREAD2'', ''TGFOCUS_SYSCALL_THREAD3'']"

definition errcode_str :: "ErrCode \<Rightarrow> string" where
  "errcode_str ec = show_int (uint ec)"

definition EC_NOERR :: ErrCode where
  "EC_NOERR = 0"

definition EC_IPCSERVER_SYSCALL_SOCKET :: ErrCode where
  "EC_IPCSERVER_SYSCALL_SOCKET = 1"

definition EC_IPCSERVER_SYSCALL_SOCKOPT :: ErrCode where
  "EC_IPCSERVER_SYSCALL_SOCKOPT = 2"

definition EC_IPCSERVER_SYSCALL_BIND :: ErrCode where
  "EC_IPCSERVER_SYSCALL_BIND = 3"

definition EC_IPCSERVER_SYSCALL_LISTEN :: ErrCode where
  "EC_IPCSERVER_SYSCALL_LISTEN = 4"

definition EC_IPCSERVER_SYSCALL_SOCKET2 :: ErrCode where
  "EC_IPCSERVER_SYSCALL_SOCKET2 = 5"

definition EC_IPCSERVER_SYSCALL_BIND2 :: ErrCode where
  "EC_IPCSERVER_SYSCALL_BIND2 = 6"

definition EC_IPCSERVER_SYSCALL_LISTEN2 :: ErrCode where
  "EC_IPCSERVER_SYSCALL_LISTEN2 = 7"

definition EC_IPCCLIENT_SYSCALL_SOCKET :: ErrCode where
  "EC_IPCCLIENT_SYSCALL_SOCKET = 21"

definition EC_IPCCLIENT_SYSCALL_CONNECT :: ErrCode where
  "EC_IPCCLIENT_SYSCALL_CONNECT = 22"

definition EC_IPCCLIENT_SYSCALL_SOCKET2 :: ErrCode where
  "EC_IPCCLIENT_SYSCALL_SOCKET2 = 23"

definition EC_IPCCLIENT_SYSCALL_CONNECT2 :: ErrCode where
  "EC_IPCCLIENT_SYSCALL_CONNECT2 = 24"

definition EC_IPCCLIENT_SYSCALL_READ :: ErrCode where
  "EC_IPCCLIENT_SYSCALL_READ = 25"

definition EC_IPCCLIENT_SYSCALL_WRITE :: ErrCode where
  "EC_IPCCLIENT_SYSCALL_WRITE = 26"

definition EC_IPCCLIENT_MUSTVALIDIPCMSG :: ErrCode where
  "EC_IPCCLIENT_MUSTVALIDIPCMSG = 27"

definition EC_IPCMSG_MUSTVALIDIPCMSG :: ErrCode where
  "EC_IPCMSG_MUSTVALIDIPCMSG = 28"

lemma errcodes_named:
  "errcode_enumerators ! unat EC_NOERR = ''NOERR''"
  "errcode_enumerators ! unat EC_IPCSERVER_SYSCALL_SOCKET = ''IPCSERVER_SYSCALL_SOCKET''"
  "errcode_enumerators ! unat EC_IPCSERVER_SYSCALL_SOCKOPT = ''IPCSERVER_SYSCALL_SOCKOPT''"
  "errcode_enumerators ! unat EC_IPCSERVER_SYSCALL_BIND = ''IPCSERVER_SYSCALL_BIND''"
  "errcode_enumerators ! unat EC_IPCSERVER_SYSCALL_LISTEN = ''IPCSERVER_SYSCALL_LISTEN''"
  "errcode_enumerators ! unat EC_IPCSERVER_SYSCALL_SOCKET2 = ''IPCSERVER_SYSCALL_SOCKET2''"
  "errcode_enumerators ! unat EC_IPCSERVER_SYSCALL_BIND2 = ''IPCSERVER_SYSCALL_BIND2''"
  "errcode_enumerators ! unat EC_IPCSERVER_SYSCALL_LISTEN2 = ''IPCSERVER_SYSCALL_LISTEN2''"
  "errcode_enumerators ! unat EC_IPCCLIENT_SYSCALL_SOCKET = ''IPCCLIENT_SYSCALL_SOCKET''"
  "errcode_enumerators ! unat EC_IPCCLIENT_SYSCALL_CONNECT = ''IPCCLIENT_SYSCALL_CONNECT''"
  "errcode_enumerators ! unat EC_IPCCLIENT_SYSCALL_SOCKET2 = ''IPCCLIENT_SYSCALL_SOCKET2''"
  "errcode_enumerators ! unat EC_IPCCLIENT_SYSCALL_CONNECT2 = ''IPCCLIENT_SYSCALL_CONNECT2''"
  "errcode_enumerators ! unat EC_IPCCLIENT_SYSCALL_READ = ''IPCCLIENT_SYSCALL_READ''"
  "errcode_enumerators ! unat EC_IPCCLIENT_SYSCALL_WRITE = ''IPCCLIENT_SYSCALL_WRITE''"
  "errcode_enumerators ! unat EC_IPCCLIENT_MUSTVALIDIPCMSG = ''IPCCLIENT_MUSTVALIDIPCMSG''"
  "errcode_enumerators ! unat EC_IPCMSG_MUSTVALIDIPCMSG = ''IPCMSG_MUSTVALIDIPCMSG''"
  by (simp_all add: errcode_enumerators_def EC_NOERR_def EC_IPCSERVER_SYSCALL_SOCKET_def EC_IPCSERVER_SYSCALL_SOCKOPT_def EC_IPCSERVER_SYSCALL_BIND_def EC_IPCSERVER_SYSCALL_LISTEN_def EC_IPCSERVER_SYSCALL_SOCKET2_def EC_IPCSERVER_SYSCALL_BIND2_def EC_IPCSERVER_SYSCALL_LISTEN2_def EC_IPCCLIENT_SYSCALL_SOCKET_def EC_IPCCLIENT_SYSCALL_CONNECT_def EC_IPCCLIENT_SYSCALL_SOCKET2_def EC_IPCCLIENT_SYSCALL_CONNECT2_def EC_IPCCLIENT_SYSCALL_READ_def EC_IPCCLIENT_SYSCALL_WRITE_def EC_IPCCLIENT_MUSTVALIDIPCMSG_def EC_IPCMSG_MUSTVALIDIPCMSG_def)

lemmas ec_defs =
  EC_NOERR_def EC_IPCSERVER_SYSCALL_SOCKET_def
  EC_IPCSERVER_SYSCALL_SOCKOPT_def EC_IPCSERVER_SYSCALL_BIND_def
  EC_IPCSERVER_SYSCALL_LISTEN_def EC_IPCSERVER_SYSCALL_SOCKET2_def
  EC_IPCSERVER_SYSCALL_BIND2_def EC_IPCSERVER_SYSCALL_LISTEN2_def
  EC_IPCCLIENT_SYSCALL_SOCKET_def EC_IPCCLIENT_SYSCALL_CONNECT_def
  EC_IPCCLIENT_SYSCALL_SOCKET2_def EC_IPCCLIENT_SYSCALL_CONNECT2_def
  EC_IPCCLIENT_SYSCALL_READ_def EC_IPCCLIENT_SYSCALL_WRITE_def
  EC_IPCCLIENT_MUSTVALIDIPCMSG_def EC_IPCMSG_MUSTVALIDIPCMSG_def

section \<open>Message types\<close>

text \<open>
  A type is the 16-bit number of the frame. (The enumeration has no fixed underlying type; a number
  that is not one of the enumerators is kept as the compiled program keeps it.)
\<close>

type_synonym IpcMsgType = u16

definition IpcMsg_Ignore :: IpcMsgType where
  "IpcMsg_Ignore = 0x0101"

definition IpcMsg_Error :: IpcMsgType where
  "IpcMsg_Error = 0x0102"

definition IpcMsg_ErrorReadable :: IpcMsgType where
  "IpcMsg_ErrorReadable = 0x0103"

definition IpcMsg_Success :: IpcMsgType where
  "IpcMsg_Success = 0x0104"

definition IpcMsg_SuccessReadable :: IpcMsgType where
  "IpcMsg_SuccessReadable = 0x0105"

definition IpcMsg_SuccessBinary :: IpcMsgType where
  "IpcMsg_SuccessBinary = 0x0106"

definition IpcMsg_ShutdownIpcSrv :: IpcMsgType where
  "IpcMsg_ShutdownIpcSrv = 0x0107"

definition IpcMsg_ReportStatus :: IpcMsgType where
  "IpcMsg_ReportStatus = 0x0108"

definition IpcMsg_UpColl :: IpcMsgType where
  "IpcMsg_UpColl = 0x0109"

definition IpcMsg_ShutdownColl :: IpcMsgType where
  "IpcMsg_ShutdownColl = 0x010A"

lemmas ipcmsg_type_defs =
  IpcMsg_Ignore_def IpcMsg_Error_def IpcMsg_ErrorReadable_def
  IpcMsg_Success_def IpcMsg_SuccessReadable_def IpcMsg_SuccessBinary_def
  IpcMsg_ShutdownIpcSrv_def IpcMsg_ReportStatus_def IpcMsg_UpColl_def
  IpcMsg_ShutdownColl_def

definition show_IpcMsgType :: "IpcMsgType \<Rightarrow> string" where
  "show_IpcMsgType t =
     (if t = IpcMsg_Ignore then ''Ignore''
      else if t = IpcMsg_Error then ''Error''
      else if t = IpcMsg_ErrorReadable then ''ErrorReadable''
      else if t = IpcMsg_Success then ''Success''
      else if t = IpcMsg_SuccessReadable then ''SuccessReadable''
      else if t = IpcMsg_SuccessBinary then ''SuccessBinary''
      else if t = IpcMsg_ShutdownIpcSrv then ''ShutdownIpcSrv''
      else if t = IpcMsg_ReportStatus then ''ReportStatus''
      else if t = IpcMsg_UpColl then ''UpColl''
      else if t = IpcMsg_ShutdownColl then ''ShutdownColl''
      else ''UNKNOWN'')"

section \<open>Messages\<close>

definition NBYTE_IPCMSG_ALL :: nat where
  "NBYTE_IPCMSG_ALL = 64"

definition NBYTE_IPCMSG_EXTARGS :: nat where
  "NBYTE_IPCMSG_EXTARGS = 4"

definition NBYTE_IPCMSG_TYPE :: nat where
  "NBYTE_IPCMSG_TYPE = 2"

definition NBYTE_IPCMSG_MAGIC :: nat where
  "NBYTE_IPCMSG_MAGIC = 3"

definition NBYTE_IPCMSG_ARGS :: nat where
  "NBYTE_IPCMSG_ARGS =
     NBYTE_IPCMSG_ALL - NBYTE_IPCMSG_MAGIC - NBYTE_IPCMSG_TYPE - NBYTE_IPCMSG_EXTARGS"

lemmas nbyte_defs =
  NBYTE_IPCMSG_ALL_def NBYTE_IPCMSG_EXTARGS_def NBYTE_IPCMSG_TYPE_def NBYTE_IPCMSG_MAGIC_def
  NBYTE_IPCMSG_ARGS_def

record IpcMsg =
  im_type :: IpcMsgType
  im_data :: "u8 list"
  im_data_len :: nat
  im_extargs_len :: u32
  im_extargs :: "u8 list option"
  im_is_parsed :: bool

definition well_formed :: "IpcMsg \<Rightarrow> bool" where
  "well_formed m = im_is_parsed m"

definition ipcmsg_data :: "IpcMsg \<Rightarrow> u8 list" where
  "ipcmsg_data m = take (im_data_len m) (im_data m)"

definition ipcmsg_args :: "IpcMsg \<Rightarrow> u8 list" where
  "ipcmsg_args m =
     drop (NBYTE_IPCMSG_MAGIC + NBYTE_IPCMSG_TYPE + NBYTE_IPCMSG_EXTARGS)
       (take (im_data_len m) (im_data m))"

text \<open>
  The parsing loop from byte \<open>i\<close> on. The state holds magic, type, extra length and the parsed
  flag; a wrong magic number leaves the loop at the first byte after it.
\<close>

fun ctor_loop :: "nat \<Rightarrow> u8 list \<Rightarrow> u32 \<Rightarrow> u16 \<Rightarrow> u32 \<Rightarrow> bool \<Rightarrow> u32 \<times> u16 \<times> u32 \<times> bool" where
  "ctor_loop i [] magic typ extlen parsed = (magic, typ, extlen, parsed)"
| "ctor_loop i (b # bs) magic typ extlen parsed =
     (if i < NBYTE_IPCMSG_MAGIC then
        ctor_loop (i + 1) bs (push_bit 8 magic OR ucast b) typ extlen parsed
      else if magic \<noteq> 0x746766 then (magic, typ, extlen, parsed)
      else if i < NBYTE_IPCMSG_MAGIC + NBYTE_IPCMSG_TYPE then
        ctor_loop (i + 1) bs magic (push_bit 8 typ OR ucast b) extlen True
      else if i < NBYTE_IPCMSG_MAGIC + NBYTE_IPCMSG_TYPE + NBYTE_IPCMSG_EXTARGS then
        ctor_loop (i + 1) bs magic typ (push_bit 8 extlen OR ucast b) True
      else ctor_loop (i + 1) bs magic typ extlen True)"

text \<open>
  The constructor. \<open>junk\<close> is the indeterminate value that \<open>__extargs_len\<close> keeps when the
  frame is not recognised.
\<close>

definition new_IpcMsg :: "u32 \<Rightarrow> u8 list \<Rightarrow> IpcMsg" where
  "new_IpcMsg junk buffer =
     (let (magic, typ, extlen, parsed) = ctor_loop 0 (take NBYTE_IPCMSG_ALL buffer) 0 0 0 False
      in if parsed then
           \<lparr>im_type = typ, im_data = take NBYTE_IPCMSG_ALL buffer, im_data_len = NBYTE_IPCMSG_ALL,
            im_extargs_len = extlen, im_extargs = None, im_is_parsed = True\<rparr>
         else
           \<lparr>im_type = IpcMsg_Ignore, im_data = replicate NBYTE_IPCMSG_ALL 0, im_data_len = 0,
            im_extargs_len = junk, im_extargs = None, im_is_parsed = False\<rparr>)"

definition serialize_into :: "IpcMsg \<Rightarrow> u8 list" where
  "serialize_into m = im_data m"

definition set_extargs :: "u8 list \<Rightarrow> IpcMsg \<Rightarrow> IpcMsg" where
  "set_extargs obuf m = m\<lparr>im_extargs := Some obuf\<rparr>"

definition ipcmsg_print :: "IpcMsg \<Rightarrow> string" where
  "ipcmsg_print m =
     ''IpcMsg('' @ ''type:'' @ show_IpcMsgType (im_type m) @ '','' @
     ''extargs_len:'' @ show_nat (unat (im_extargs_len m)) @ '','' @
     (case im_extargs m of
        Some ext \<Rightarrow> ''extargs:'' @ as_hex_list ext @ '',''
      | None \<Rightarrow> ''extargs:'' @ ''-'' @ '','') @
     ''data_len:'' @ show_nat (im_data_len m) @ '','' @
     ''data:'' @ as_hex_list (ipcmsg_data m) @ '','' @ '')''"

section \<open>Building messages\<close>

text \<open>
  \<open>Inl\<close> is the exit of the process with an error code. \<open>args\<close> is a buffer of 55 bytes.
\<close>

definition new_ipcmsg :: "IpcMsgType \<Rightarrow> u32 \<Rightarrow> u8 list \<Rightarrow> ErrCode + IpcMsg" where
  "new_ipcmsg typ extlen args =
     (let buf = [0x74, 0x67, 0x66] @ be16 typ @ be32 extlen @ take NBYTE_IPCMSG_ARGS args;
          msg = new_IpcMsg 0 buf
      in if \<not> well_formed msg then Inl EC_IPCMSG_MUSTVALIDIPCMSG else Inr msg)"

definition new_ipcmsg0 :: "IpcMsgType \<Rightarrow> u8 list \<Rightarrow> ErrCode + IpcMsg" where
  "new_ipcmsg0 typ args = new_ipcmsg typ 0 args"

definition zero_args :: "u8 list" where
  "zero_args = replicate NBYTE_IPCMSG_ARGS 0"

definition new_ipcmsg_shutipcsrv :: "ErrCode + IpcMsg" where
  "new_ipcmsg_shutipcsrv = new_ipcmsg0 IpcMsg_ShutdownIpcSrv zero_args"

definition new_ipcmsg_rstatus :: "ErrCode + IpcMsg" where
  "new_ipcmsg_rstatus =
     (let s = map byte_of_char ''auth:?''
      in new_ipcmsg0 IpcMsg_ReportStatus (s @ drop (length s) zero_args))"

definition new_ipcmsg_upcoll :: "ErrCode + IpcMsg" where
  "new_ipcmsg_upcoll = new_ipcmsg0 IpcMsg_UpColl zero_args"

definition new_ipcmsg_shutcoll :: "ErrCode + IpcMsg" where
  "new_ipcmsg_shutcoll = new_ipcmsg0 IpcMsg_ShutdownColl zero_args"

definition new_ipcmsg_successr :: "u8 list \<Rightarrow> ErrCode + IpcMsg" where
  "new_ipcmsg_successr obuf =
     new_ipcmsg IpcMsg_SuccessReadable (word_of_nat (length obuf)) zero_args"

definition new_ipcmsg_success :: "ErrCode + IpcMsg" where
  "new_ipcmsg_success = new_ipcmsg0 IpcMsg_Success zero_args"

definition new_ipcmsg_error :: "ErrCode + IpcMsg" where
  "new_ipcmsg_error = new_ipcmsg0 IpcMsg_Error zero_args"

section \<open>The queue\<close>

text \<open>
  The vector of messages and the flag \<open>q_ipcmsg_has_upd\<close> that wakes the dequeuing worker. Each
  operation runs under the queue's mutex.
\<close>

record IpcMsgQueue =
  q_msgs :: "IpcMsg list"
  q_has_upd :: bool

definition queue_new :: IpcMsgQueue where
  "queue_new = \<lparr>q_msgs = [], q_has_upd = False\<rparr>"

definition enqueue :: "IpcMsg \<Rightarrow> IpcMsgQueue \<Rightarrow> bool \<times> IpcMsgQueue" where
  "enqueue cmd q = (True, q\<lparr>q_msgs := q_msgs q @ [cmd], q_has_upd := True\<rparr>)"

definition deque :: "IpcMsgQueue \<Rightarrow> IpcMsg option \<times> IpcMsgQueue" where
  "deque q =
     (if length (q_msgs q) > 0 then (Some (last (q_msgs q)), q\<lparr>q_msgs := butlast (q_msgs q)\<rparr>)
      else (None, q))"

section \<open>Parsing and serialising\<close>

lemma ctor_loop_tail: "9 \<le> i \<Longrightarrow> ctor_loop i bs 0x746766 t e True = (0x746766, t, e, True)"
  by (induction i bs "0x746766 :: u32" t e True rule: ctor_loop.induct) (auto simp: nbyte_defs)

lemma magic_iff:
  "be_read 0 [a, b, c] = (0x746766 :: u32) \<longleftrightarrow> [a, b, c] = [0x74, 0x67, 0x66]"
proof
  define v :: u32 where "v = be_read 0 [a, b, c]"
  have v: "a = ucast (drop_bit 16 v)" "b = ucast (drop_bit 8 v)" "c = ucast v"
    unfolding v_def
    by (rule bit_word_eqI, auto simp: bit_simps dest: bit_imp_le_length)+
  assume "be_read 0 [a, b, c] = (0x746766 :: u32)"
  then have "v = 0x746766" by (simp only: v_def)
  then show "[a, b, c] = [0x74, 0x67, 0x66]" by (simp add: v)
qed simp

lemma frame_cases:
  assumes "length (buf :: u8 list) = 64"
  obtains a b c t1 t2 e1 e2 e3 e4 args where
    "buf = [a, b, c, t1, t2, e1, e2, e3, e4] @ args" and "length args = 55"
proof -
  have "buf = take 9 buf @ drop 9 buf" by simp
  moreover have nine: "\<exists>a b c t1 t2 e1 e2 e3 e4. xs = [a, b, c, t1, t2, e1, e2, e3, e4]"
    if "length xs = 9" for xs :: "u8 list"
    using that by (auto simp: length_Suc_conv eval_nat_numeral)
  have "length (take 9 buf) = 9" using assms by simp
  from nine [OF this] obtain a b c t1 t2 e1 e2 e3 e4
    where "take 9 buf = [a, b, c, t1, t2, e1, e2, e3, e4]" by blast
  ultimately have "buf = [a, b, c, t1, t2, e1, e2, e3, e4] @ drop 9 buf" by simp
  moreover have "length (drop 9 buf) = 55" using assms by simp
  ultimately show thesis by (rule that)
qed

lemma parse_frame:
  assumes "length args = 55"
  shows "new_IpcMsg junk ([a, b, c, t1, t2, e1, e2, e3, e4] @ args) =
    (if [a, b, c] = [0x74, 0x67, 0x66] then
       \<lparr>im_type = be_read 0 [t1, t2], im_data = [a, b, c, t1, t2, e1, e2, e3, e4] @ args,
        im_data_len = 64, im_extargs_len = be_read 0 [e1, e2, e3, e4], im_extargs = None,
        im_is_parsed = True\<rparr>
     else
       \<lparr>im_type = IpcMsg_Ignore, im_data = replicate 64 0, im_data_len = 0, im_extargs_len = junk,
        im_extargs = None, im_is_parsed = False\<rparr>)"
proof -
  let ?m = "be_read 0 [a, b, c] :: u32"
  have m: "push_bit 8 (push_bit 8 (push_bit 8 0 OR ucast a) OR ucast b) OR ucast c = ?m" by simp
  show ?thesis
  proof (cases "?m = 0x746766")
    case True
    then have abc: "[a, b, c] = [0x74, 0x67, 0x66]" by (simp only: magic_iff)
    show ?thesis
      using assms abc by (simp add: new_IpcMsg_def nbyte_defs ctor_loop_tail)
  next
    case False
    then have "[a, b, c] \<noteq> [0x74, 0x67, 0x66]" using magic_iff by blast
    with False assms show ?thesis by (auto simp: new_IpcMsg_def nbyte_defs)
  qed
qed

text \<open>
  C29: Parsing a frame of 64 bytes: it is recognised exactly when it starts with the magic bytes;
  then type and extra length are its big-endian fields, the arguments its last 55 bytes, and
  serialising gives the frame back. An unrecognised frame is an Ignore message without data.
\<close>

theorem parse_spec:
  assumes "length buf = 64"
  shows "(well_formed (new_IpcMsg junk buf) \<longleftrightarrow> take 3 buf = [0x74, 0x67, 0x66]) \<and>
    (if well_formed (new_IpcMsg junk buf) then
       im_type (new_IpcMsg junk buf) = be_read 0 (take 2 (drop 3 buf)) \<and>
       im_extargs_len (new_IpcMsg junk buf) = be_read 0 (take 4 (drop 5 buf)) \<and>
       ipcmsg_args (new_IpcMsg junk buf) = drop 9 buf \<and>
       serialize_into (new_IpcMsg junk buf) = buf
     else
       im_type (new_IpcMsg junk buf) = IpcMsg_Ignore \<and> ipcmsg_data (new_IpcMsg junk buf) = [] \<and>
       im_extargs (new_IpcMsg junk buf) = None)"
proof -
  obtain a b c t1 t2 e1 e2 e3 e4 args where
    buf: "buf = [a, b, c, t1, t2, e1, e2, e3, e4] @ args" and len: "length args = 55"
    using frame_cases [OF assms] .
  have "ipcmsg_args (new_IpcMsg junk buf) = drop 9 buf" if "[a, b, c] = [0x74, 0x67, 0x66]"
    using that len unfolding buf parse_frame [OF len]
    by (simp add: ipcmsg_args_def nbyte_defs eval_nat_numeral)
  moreover have "take 3 buf = [a, b, c]" "take 2 (drop 3 buf) = [t1, t2]"
    "take 4 (drop 5 buf) = [e1, e2, e3, e4]"
    by (simp_all add: buf eval_nat_numeral)
  ultimately show ?thesis
    using len unfolding buf parse_frame [OF len]
    by (simp add: well_formed_def serialize_into_def ipcmsg_data_def)
qed

lemma parse_spec_witness:
  "\<exists>buf. length buf = 64 \<and> well_formed (new_IpcMsg 9 buf) \<and> im_type (new_IpcMsg 9 buf) = 0x0108 \<and>
     im_extargs_len (new_IpcMsg 9 buf) = 258"
proof -
  define args where "args = replicate 55 (0 :: u8)"
  have len: "length ([0x74, 0x67, 0x66, 1, 8, 0, 0, 1, 2] @ args) = 64" by (simp add: args_def)
  from parse_spec [OF this, of 9] have
    "well_formed (new_IpcMsg 9 ([0x74, 0x67, 0x66, 1, 8, 0, 0, 1, 2] @ args)) \<and>
     im_type (new_IpcMsg 9 ([0x74, 0x67, 0x66, 1, 8, 0, 0, 1, 2] @ args)) = 0x0108 \<and>
     im_extargs_len (new_IpcMsg 9 ([0x74, 0x67, 0x66, 1, 8, 0, 0, 1, 2] @ args)) = 258"
    by (simp split: if_splits)
  with len show ?thesis by blast
qed

lemma new_ipcmsg_Inr:
  assumes "length args = 55"
  shows "new_ipcmsg ty extlen args = Inr
    \<lparr>im_type = ty, im_data = [0x74, 0x67, 0x66] @ be16 ty @ be32 extlen @ args, im_data_len = 64,
     im_extargs_len = extlen, im_extargs = None, im_is_parsed = True\<rparr>"
proof -
  obtain t1 t2 where t: "be16 ty = [t1, t2]" by (simp add: be16_def)
  obtain e1 e2 e3 e4 where e: "be32 extlen = [e1, e2, e3, e4]" by (simp add: be32_def)
  have "be_read 0 [t1, t2] = ty" "be_read 0 [e1, e2, e3, e4] = extlen"
    using be16.dec_enc [of ty] be32.dec_enc [of extlen] by (simp_all only: t e)
  with parse_frame [OF assms, of 0 "0x74" "0x67" "0x66" t1 t2 e1 e2 e3 e4] assms t e
  show ?thesis
    by (simp add: new_ipcmsg_def well_formed_def nbyte_defs Let_def del: be_read.simps)
qed

text \<open>
  C28: Messages survive the wire: building a message never exits the process, the message has the
  type, extra length and arguments it was given, and parsing its frame gives the same message.
\<close>

theorem ipcmsg_roundtrip:
  assumes "length args = 55"
  shows "\<exists>m. new_ipcmsg ty extlen args = Inr m \<and> well_formed m \<and> im_type m = ty \<and>
           im_extargs_len m = extlen \<and> ipcmsg_args m = args \<and> length (serialize_into m) = 64 \<and>
           new_IpcMsg junk (serialize_into m) = m"
proof -
  let ?buf = "[0x74, 0x67, 0x66] @ be16 ty @ be32 extlen @ args"
  obtain t1 t2 where t: "be16 ty = [t1, t2]" by (simp add: be16_def)
  obtain e1 e2 e3 e4 where e: "be32 extlen = [e1, e2, e3, e4]" by (simp add: be32_def)
  have "be_read 0 [t1, t2] = ty" "be_read 0 [e1, e2, e3, e4] = extlen"
    using be16.dec_enc [of ty] be32.dec_enc [of extlen] by (simp_all only: t e)
  then have "new_IpcMsg junk ?buf =
    \<lparr>im_type = ty, im_data = ?buf, im_data_len = 64, im_extargs_len = extlen, im_extargs = None,
     im_is_parsed = True\<rparr>"
    using parse_frame [OF assms, of junk "0x74" "0x67" "0x66" t1 t2 e1 e2 e3 e4]
    by (simp add: t e del: be_read.simps)
  with assms new_ipcmsg_Inr [OF assms, of ty extlen] show ?thesis
    by (simp add: well_formed_def serialize_into_def ipcmsg_args_def nbyte_defs t e eval_nat_numeral)
qed

lemma ipcmsg_roundtrip_witness:
  "\<exists>m. new_ipcmsg_rstatus = Inr m \<and> im_type m = 0x0108 \<and>
     take 6 (ipcmsg_args m) = map byte_of_char ''auth:?'' \<and> new_IpcMsg 77 (serialize_into m) = m"
proof -
  let ?args = "map byte_of_char ''auth:?'' @ replicate 49 0"
  have "length ?args = 55" by simp
  from ipcmsg_roundtrip [OF this, of IpcMsg_ReportStatus 0 77] show ?thesis
    by (auto simp: new_ipcmsg_rstatus_def new_ipcmsg0_def zero_args_def nbyte_defs
        IpcMsg_ReportStatus_def drop_replicate)
qed

section \<open>The queue hands out the newest message\<close>

interpretation ipcq: stack_buffer "\<lambda>m q. snd (enqueue m q)" deque "\<lambda>q. rev (q_msgs q)"
proof
  fix q :: IpcMsgQueue and m ms
  assume "rev (q_msgs q) = m # ms"
  then have "q_msgs q = rev ms @ [m]" by (simp add: rev_eq_Cons_iff)
  then show "\<exists>q'. deque q = (Some m, q') \<and> rev (q_msgs q') = ms" by (simp add: deque_def)
qed (auto simp: enqueue_def deque_def)

text \<open>
  The queue loses and invents nothing, but it is a stack: after a series of enqueues the same
  number of dequeues returns those messages in reverse order.
\<close>

theorem ipc_queue_is_a_stack:
  "fst (run_buf (\<lambda>m q. snd (enqueue m q)) deque (map Put ms @ replicate (length ms) Take) q) = rev ms \<and>
   mset (q_msgs q) + mset (puts ops) =
     mset (fst (run_buf (\<lambda>m q. snd (enqueue m q)) deque ops q)) +
     mset (q_msgs (snd (run_buf (\<lambda>m q. snd (enqueue m q)) deque ops q)))"
  using ipcq.newest_first [of ms q] ipcq.conservation [of ops q] by (metis mset_rev prod.collapse)

end
