(* ===== verification/IpcNet.thy ===== *)
theory IpcNet
  imports Ipc
begin

text \<open>
  The two ends of the IPC connection: \<open>src/src/ipc_client.cc\<close> and \<open>ipc_server.cc\<close>. What
  a system call returns is an input of the model: an integer for the calls that set sockets up
  (-1 on failure), the received bytes or \<open>None\<close> for \<open>recv\<close> and \<open>read\<close>. Functions
  that create sockets also return the descriptors they leave open without handing them on.
\<close>

section \<open>Client\<close>

definition creat_in_client :: "int \<Rightarrow> int \<Rightarrow> int \<times> int list" where
  "creat_in_client sk conn =
     (if sk = -1 then (-10 - uint EC_IPCCLIENT_SYSCALL_SOCKET, [])
      else if conn = -1 then (-10 - uint EC_IPCCLIENT_SYSCALL_CONNECT, [sk])
      else (sk, []))"

definition creat_un_client :: "int \<Rightarrow> int \<Rightarrow> int \<times> int list" where
  "creat_un_client sk conn =
     (if sk = -1 then (-10 - uint EC_IPCCLIENT_SYSCALL_SOCKET2, [])
      else if conn = -1 then (-10 - uint EC_IPCCLIENT_SYSCALL_CONNECT2, [sk])
      else (sk, []))"

record IpcClient =
  csock :: int
  c_ec :: ErrCode

definition new_IpcClient :: "int \<Rightarrow> int \<Rightarrow> IpcClient \<times> int list" where
  "new_IpcClient sock_rc conn_rc =
     (let (sk, leak) = creat_in_client sock_rc conn_rc
      in if sk < -10 then (\<lparr>csock = -1, c_ec = word_of_int (- (sk + 10))\<rparr>, leak)
         else (\<lparr>csock = sk, c_ec = EC_NOERR\<rparr>, leak))"

text \<open>The descriptors that the destructor closes.\<close>

definition IpcClient_dtor :: "IpcClient \<Rightarrow> int list" where
  "IpcClient_dtor c = (if csock c \<ge> 0 then [csock c] else [])"

text \<open>
  The loop that reads the extra arguments: every \<open>read\<close> stores at the start of the buffer.
  The outer \<open>None\<close> means that the reads at hand do not end the loop; the inner one is a failed
  read.
\<close>

fun read_extargs :: "nat \<Rightarrow> nat \<Rightarrow> u8 list \<Rightarrow> u8 list option list \<Rightarrow> u8 list option option" where
  "read_extargs n nread_total buf [] = (if nread_total \<ge> n then Some (Some buf) else None)"
| "read_extargs n nread_total buf (r # rs) =
     (if nread_total \<ge> n then Some (Some buf)
      else case r of
             None \<Rightarrow> Some None
           | Some d \<Rightarrow> read_extargs n (nread_total + length d) (d @ drop (length d) buf) rs)"

datatype reply = Reply IpcMsg | NoReply | Waiting

definition send_ipcmsg_sync ::
  "u32 \<Rightarrow> int \<Rightarrow> u8 list option \<Rightarrow> u8 list option list \<Rightarrow> IpcMsg \<Rightarrow> IpcClient \<Rightarrow> reply \<times> IpcClient" where
  "send_ipcmsg_sync junk nsend nrecv reads msg c =
     (if \<not> well_formed msg then (NoReply, c\<lparr>c_ec := EC_IPCCLIENT_MUSTVALIDIPCMSG\<rparr>)
      else if nsend = -1 then (NoReply, c\<lparr>c_ec := EC_IPCCLIENT_SYSCALL_WRITE\<rparr>)
      else case nrecv of
             None \<Rightarrow> (NoReply, c\<lparr>c_ec := EC_IPCCLIENT_SYSCALL_READ\<rparr>)
           | Some got \<Rightarrow>
               (let buf = got @ drop (length got) (replicate NBYTE_IPCMSG_ALL 0);
                    msg_rsp = new_IpcMsg junk buf;
                    n = unat (im_extargs_len msg_rsp)
                in if \<not> well_formed msg_rsp then (NoReply, c)
                   else if n > 0 then
                     (case read_extargs n 0 (replicate n 0) reads of
                        None \<Rightarrow> (Waiting, c)
                      | Some None \<Rightarrow> (NoReply, c\<lparr>c_ec := EC_IPCCLIENT_SYSCALL_READ\<rparr>)
                      | Some (Some ext) \<Rightarrow> (Reply (set_extargs ext msg_rsp), c))
                   else (Reply msg_rsp, c)))"

section \<open>Server\<close>

record server_calls =
  sy_socket :: int
  sy_setsockopt :: int
  sy_bind :: int
  sy_listen :: int

definition creat_in_server :: "server_calls \<Rightarrow> int \<times> int list" where
  "creat_in_server sy =
     (if sy_socket sy = -1 then (-10 - uint EC_IPCSERVER_SYSCALL_SOCKET, [])
      else if sy_setsockopt sy = -1 then (-10 - uint EC_IPCSERVER_SYSCALL_SOCKOPT, [sy_socket sy])
      else if sy_bind sy = -1 then (-10 - uint EC_IPCSERVER_SYSCALL_BIND, [sy_socket sy])
      else if sy_listen sy = -1 then (-10 - uint EC_IPCSERVER_SYSCALL_LISTEN, [sy_socket sy])
      else (sy_socket sy, []))"

definition create_unsock_server :: "server_calls \<Rightarrow> int \<times> int list" where
  "create_unsock_server sy =
     (if sy_socket sy = -1 then (-10 - uint EC_IPCSERVER_SYSCALL_SOCKET2, [])
      else if sy_bind sy = -1 then (-10 - uint EC_IPCSERVER_SYSCALL_BIND2, [sy_socket sy])
      else if sy_listen sy = -1 then (-10 - uint EC_IPCSERVER_SYSCALL_LISTEN2, [sy_socket sy])
      else (sy_socket sy, []))"

definition AF_INET :: int where
  "AF_INET = 2"

definition AF_UNIX :: int where
  "AF_UNIX = 1"

record IpcServer =
  srv_domain :: int
  ssock_lazy :: int
  ssock_immd :: int
  srv_ec :: ErrCode

text \<open>\<open>junk\<close> is the indeterminate value that the error code keeps when both sockets are up.\<close>

definition new_IpcServer :: "ErrCode \<Rightarrow> server_calls \<Rightarrow> server_calls \<Rightarrow> IpcServer \<times> int list" where
  "new_IpcServer junk sy1 sy2 =
     (let s0 = \<lparr>srv_domain = -1, ssock_lazy = -1, ssock_immd = -1, srv_ec = junk\<rparr>;
          (sk1, leak1) = creat_in_server sy1;
          (sk2, leak2) = creat_in_server sy2
      in if sk1 < -10 then
           (s0\<lparr>srv_ec := word_of_int (- (sk1 + 10))\<rparr>, leak1 @ leak2 @ (if sk2 < -10 then [] else [sk2]))
         else if sk2 < -10 then
           (s0\<lparr>srv_ec := word_of_int (- (sk2 + 10))\<rparr>, leak1 @ leak2 @ [sk1])
         else
           (s0\<lparr>ssock_lazy := sk1, ssock_immd := sk2, srv_domain := AF_INET\<rparr>, leak1 @ leak2))"

definition server_ok :: "IpcServer \<Rightarrow> bool" where
  "server_ok s = (ssock_lazy s \<ge> 0 \<and> ssock_immd s \<ge> 0)"

text \<open>The descriptors closed and whether the socket files are unlinked.\<close>

definition IpcServer_dtor :: "IpcServer \<Rightarrow> int list \<times> string list" where
  "IpcServer_dtor s =
     ((if ssock_lazy s \<ge> 0 then [ssock_lazy s] else []) @ (if ssock_immd s \<ge> 0 then [ssock_immd s] else []),
      (if ssock_lazy s \<ge> 0 \<and> srv_domain s = AF_UNIX then [''/tmp/unix_socket_lazy''] else []) @
      (if ssock_immd s \<ge> 0 \<and> srv_domain s = AF_UNIX then [''/tmp/unix_socket_immd''] else []))"

section \<open>Setting the server up\<close>

text \<open>The code of the first call that failed.\<close>

definition first_failure :: "server_calls \<Rightarrow> ErrCode option" where
  "first_failure sy =
     (if sy_socket sy = -1 then Some EC_IPCSERVER_SYSCALL_SOCKET
      else if sy_setsockopt sy = -1 then Some EC_IPCSERVER_SYSCALL_SOCKOPT
      else if sy_bind sy = -1 then Some EC_IPCSERVER_SYSCALL_BIND
      else if sy_listen sy = -1 then Some EC_IPCSERVER_SYSCALL_LISTEN
      else None)"

definition calls_ok :: "server_calls \<Rightarrow> bool" where
  "calls_ok sy = (sy_socket sy \<ge> -1)"

lemma creat_in_server_spec:
  assumes "calls_ok sy"
  shows "creat_in_server sy =
    (case first_failure sy of
       Some ec \<Rightarrow> (-10 - uint ec, if sy_socket sy = -1 then [] else [sy_socket sy])
     | None \<Rightarrow> (sy_socket sy, []))" and "first_failure sy = None \<Longrightarrow> sy_socket sy \<ge> 0"
    and "first_failure sy = Some ec \<Longrightarrow> 0 < uint ec"
  using assms
  by (auto simp: creat_in_server_def first_failure_def calls_ok_def ec_defs split: if_splits)

definition opened :: "server_calls \<Rightarrow> int list" where
  "opened sy = (if sy_socket sy = -1 then [] else [sy_socket sy])"

lemma new_IpcServer_spec:
  assumes "calls_ok sy1" and "calls_ok sy2"
  shows "new_IpcServer junk sy1 sy2 =
    (case first_failure sy1 of
       Some ec \<Rightarrow> (\<lparr>srv_domain = -1, ssock_lazy = -1, ssock_immd = -1, srv_ec = ec\<rparr>, opened sy1 @ opened sy2)
     | None \<Rightarrow>
         (case first_failure sy2 of
            Some ec \<Rightarrow>
              (\<lparr>srv_domain = -1, ssock_lazy = -1, ssock_immd = -1, srv_ec = ec\<rparr>, opened sy2 @ opened sy1)
          | None \<Rightarrow>
              (\<lparr>srv_domain = AF_INET, ssock_lazy = sy_socket sy1, ssock_immd = sy_socket sy2, srv_ec = junk\<rparr>, [])))"
proof -
  note s1 = creat_in_server_spec [OF assms(1)] and s2 = creat_in_server_spec [OF assms(2)]
  show ?thesis
  proof (cases "first_failure sy1")
    case (Some ec)
    with s1(1,3) s2 show ?thesis
      by (cases "first_failure sy2") (auto simp: new_IpcServer_def opened_def Let_def)
  next
    case None
    with s1(1,2) s2 show ?thesis
      by (cases "first_failure sy2") (auto simp: new_IpcServer_def opened_def Let_def)
  qed
qed

text \<open>
  The server is usable exactly when every call for both sockets succeeds, and then owns both.
  Otherwise its error code, carried through a negative return value, names the first call that failed
  (those of the first socket before those of the second), and every descriptor that was opened stays
  open without an owner.
\<close>

theorem server_setup:
  assumes "calls_ok sy1" and "calls_ok sy2"
  shows "(server_ok (fst (new_IpcServer junk sy1 sy2)) \<longleftrightarrow>
            first_failure sy1 = None \<and> first_failure sy2 = None) \<and>
         (case first_failure sy1 of
            Some ec \<Rightarrow> srv_ec (fst (new_IpcServer junk sy1 sy2)) = ec
          | None \<Rightarrow>
              (case first_failure sy2 of
                 Some ec \<Rightarrow> srv_ec (fst (new_IpcServer junk sy1 sy2)) = ec
               | None \<Rightarrow> ssock_lazy (fst (new_IpcServer junk sy1 sy2)) = sy_socket sy1 \<and>
                         ssock_immd (fst (new_IpcServer junk sy1 sy2)) = sy_socket sy2)) \<and>
         set (snd (new_IpcServer junk sy1 sy2)) =
           (if server_ok (fst (new_IpcServer junk sy1 sy2)) then {}
            else {sy_socket sy1, sy_socket sy2} - {-1})"
proof -
  have neg: "first_failure sy1 = None \<Longrightarrow> 0 \<le> sy_socket sy1" "first_failure sy2 = None \<Longrightarrow> 0 \<le> sy_socket sy2"
    using creat_in_server_spec(2) assms by blast+
  then show ?thesis
    unfolding new_IpcServer_spec [OF assms]
    by (cases "first_failure sy1"; cases "first_failure sy2")
      (auto simp: server_ok_def opened_def)
qed

lemma server_setup_witness:
  "srv_ec (fst (new_IpcServer 0 \<lparr>sy_socket = 5, sy_setsockopt = 0, sy_bind = -1, sy_listen = 0\<rparr>
     \<lparr>sy_socket = 6, sy_setsockopt = 0, sy_bind = 0, sy_listen = 0\<rparr>)) = 3 \<and>
   set (snd (new_IpcServer 0 \<lparr>sy_socket = 5, sy_setsockopt = 0, sy_bind = -1, sy_listen = 0\<rparr>
     \<lparr>sy_socket = 6, sy_setsockopt = 0, sy_bind = 0, sy_listen = 0\<rparr>)) = {5, 6}"
  using server_setup [of "\<lparr>sy_socket = 5, sy_setsockopt = 0, sy_bind = -1, sy_listen = 0\<rparr>"
      "\<lparr>sy_socket = 6, sy_setsockopt = 0, sy_bind = 0, sy_listen = 0\<rparr>" 0]
  by (auto simp: calls_ok_def first_failure_def ec_defs)

section \<open>Extra arguments\<close>

lemma read_extargs_done [simp]: "n \<le> t \<Longrightarrow> read_extargs n t buf reads = Some (Some buf)"
  by (cases reads) (simp_all add: read_extargs.simps)

lemma read_extargs_step:
  "t < n \<Longrightarrow> read_extargs n t buf (Some d # rs) =
     read_extargs n (t + length d) (d @ drop (length d) buf) rs"
  by (simp add: read_extargs.simps)

lemma read_extargs_eof: "t < n \<Longrightarrow> read_extargs n t buf (replicate k (Some [])) = None"
  by (induction k) (simp_all add: read_extargs.simps)

text \<open>
  Receiving the extra arguments of a reply: they are right when one read delivers them all.
  When they arrive in two parts the second is stored over the start of the first, and when the
  server closes the connection early the loop never ends, whatever number of reads is made.
\<close>

theorem client_extargs:
  assumes "length d1 + length d2 = n" and "d1 \<noteq> []" and "d2 \<noteq> []"
  shows "read_extargs n 0 (replicate n 0) [Some (d1 @ d2)] = Some (Some (d1 @ d2)) \<and>
         read_extargs n 0 (replicate n 0) [Some d1, Some d2] =
           Some (Some (d2 @ drop (length d2) (d1 @ replicate (length d2) 0))) \<and>
         read_extargs n 0 (replicate n 0) (Some d1 # replicate k (Some [])) = None"
proof -
  have n: "n = length d1 + length d2" "0 < n" "length d1 < n" using assms by auto
  then show ?thesis by (simp add: read_extargs_step read_extargs_eof)
qed

lemma client_extargs_witness:
  "read_extargs 3 0 (replicate 3 0) [Some [1, 2], Some [3]] = Some (Some [3, 2, 0])"
  using client_extargs [of "[1, 2]" "[3]" 3 0] by (simp add: eval_nat_numeral)

end
