(* ===== verification/ChatCmd.thy ===== *)
theory ChatCmd
  imports FilterStore UserData
begin

text \<open>
  \<open>src/src/chatcmd.hh\<close> and \<open>chatcmd.cc\<close>: the commands a user types into the TG-FOCUS
  chat. The state they work on is the data directory and the flag that pauses forwarding. A handler
  returns the success datum, the command it claims to have run and the text of the reply.
\<close>

section \<open>Texts\<close>

definition CHATCMD_PAUSE :: string where
  "CHATCMD_PAUSE = ''pause''"

definition CHATCMD_RESUME :: string where
  "CHATCMD_RESUME = ''resume''"

definition CHATCMD_FILTERS :: string where
  "CHATCMD_FILTERS = ''filters''"

definition CHATCMD_RAWFILTERS :: string where
  "CHATCMD_RAWFILTERS = ''rawfilters''"

definition CHATCMD_EDITF :: string where
  "CHATCMD_EDITF = ''filter.edit''"

definition CHATCMD_EDITF_ARG1 :: string where
  "CHATCMD_EDITF_ARG1 = ''<filter-id>''"

definition CHATCMD_EDITF_ARG2 :: string where
  "CHATCMD_EDITF_ARG2 = ''<property>''"

definition CHATCMD_EDITF_ARG3 :: string where
  "CHATCMD_EDITF_ARG3 = ''<action>''"

definition CHATCMD_EDITF_ARG4 :: string where
  "CHATCMD_EDITF_ARG4 = ''<double-quoted-value>''"

definition CHATCMD_INSF :: string where
  "CHATCMD_INSF = ''filter.insert''"

definition CHATCMD_INSF_ARG1 :: string where
  "CHATCMD_INSF_ARG1 = ''<filter-id>''"

definition CHATCMD_RMF :: string where
  "CHATCMD_RMF = ''filter.remove''"

definition CHATCMD_RMF_ARG1 :: string where
  "CHATCMD_RMF_ARG1 = ''<filter-id>''"

definition CHATCMD_HELP :: string where
  "CHATCMD_HELP = ''help''"

definition CHATCMD_RPLY_PREFIX :: string where
  "CHATCMD_RPLY_PREFIX = [CHR 0xE3, CHR 0x80, CHR 0x98] @ '' TGFCMD '' @ [CHR 0xE3, CHR 0x80, CHR 0x99]"

definition CHATCMD_RPLY_PREFIX_N_CP :: nat where
  "CHATCMD_RPLY_PREFIX_N_CP = 10"

definition CHATCMD_EDITF_USAGE :: string where
  "CHATCMD_EDITF_USAGE =
     ''Usage:'' @ [CHR 0x0A] @ '' '' @ CHATCMD_EDITF @ '' '' @ CHATCMD_EDITF_ARG1 @ '' '' @
     CHATCMD_EDITF_ARG2 @ '' '' @ CHATCMD_EDITF_ARG3 @ '' '' @ CHATCMD_EDITF_ARG4"

definition CHATCMD_INSF_USAGE :: string where
  "CHATCMD_INSF_USAGE =
     ''Usage:'' @ [CHR 0x0A] @ '' '' @ CHATCMD_INSF @ '' '' @ CHATCMD_INSF_ARG1"

definition CHATCMD_RMF_USAGE :: string where
  "CHATCMD_RMF_USAGE =
     ''Usage:'' @ [CHR 0x0A] @ '' '' @ CHATCMD_RMF @ '' '' @ CHATCMD_RMF_ARG1"

definition help_text :: string where
  "help_text =
     ([CHR 0x0A]) @
     (''TGFCMD(s) are a group of commands used to control the behavior of TG-FOCUS. To run a TGFCMD command, you MUST send a TGFCMD command message in the TG-FOCUS chat.'' @ [CHR 0x0A]) @
     ([CHR 0x0A]) @
     (''Available commands are:'' @ [CHR 0x0A]) @
     ([CHR 0x0A]) @
     (''Pause Forwarding:'' @ [CHR 0xE2, CHR 0x80, CHR 0x82] @ ''TGFCMD pause'' @ [CHR 0xE2, CHR 0x80, CHR 0x82, CHR 0x0A]) @
     ([CHR 0x0A]) @
     (''Resume Forwarding:'' @ [CHR 0xE2, CHR 0x80, CHR 0x82] @ ''TGFCMD resume'' @ [CHR 0xE2, CHR 0x80, CHR 0x82, CHR 0x0A]) @
     ([CHR 0x0A]) @
     (''Show Configuration:'' @ [CHR 0xE2, CHR 0x80, CHR 0x82] @ ''TGFCMD filters'' @ [CHR 0xE2, CHR 0x80, CHR 0x82, CHR 0x0A]) @
     ([CHR 0x0A]) @
     (''Create A Filter:'' @ [CHR 0xE2, CHR 0x80, CHR 0x82] @ ''TGFCMD filter.insert <ID>'' @ [CHR 0xE2, CHR 0x80, CHR 0x82, CHR 0x0A]) @
     ([CHR 0x0A]) @
     (''Remove A Filter:'' @ [CHR 0xE2, CHR 0x80, CHR 0x82] @ ''TGFCMD filter.remove <ID>'' @ [CHR 0xE2, CHR 0x80, CHR 0x82, CHR 0x0A]) @
     ([CHR 0x0A]) @
     (''Edit A Filter:'' @ [CHR 0xE2, CHR 0x80, CHR 0x82] @ ''TGFCMD filter.edit <ID> <PROPERTY> <add/del> <DOUBLE-QUOTED-VALUE>'' @ [CHR 0xE2, CHR 0x80, CHR 0x82, CHR 0x0A]) @
     ([CHR 0x0A]) @
     (''EXAMPLES :'' @ [CHR 0x0A]) @
     ([CHR 0x0A]) @
     (''Forward the messages that come from chat '' @ [CHR 0x22] @ ''Freedom User Group'' @ [CHR 0x22] @ '' :'' @ [CHR 0x0A]) @
     ([CHR 0x0A]) @
     ([CHR 0xE2, CHR 0x80, CHR 0x82] @ ''TGFCMD filter.edit 1 titles add '' @ [CHR 0x22] @ ''Freedom User Group'' @ [CHR 0x22, CHR 0xE2, CHR 0x80, CHR 0x82, CHR 0x0A]) @
     ([CHR 0x0A]) @
     (''Forward the messages that are sent by the user '' @ [CHR 0x22] @ ''Some One'' @ [CHR 0x22] @ '' :'' @ [CHR 0x0A]) @
     ([CHR 0x0A]) @
     ([CHR 0xE2, CHR 0x80, CHR 0x82] @ ''TGFCMD filter.edit 1 senders add '' @ [CHR 0x22] @ ''Some One'' @ [CHR 0x22, CHR 0xE2, CHR 0x80, CHR 0x82, CHR 0x0A]) @
     ([CHR 0x0A]) @
     (''Forward the messages that contain a word '' @ [CHR 0x22] @ ''freedom'' @ [CHR 0x22] @ '' :'' @ [CHR 0x0A]) @
     ([CHR 0x0A]) @
     ([CHR 0xE2, CHR 0x80, CHR 0x82] @ ''TGFCMD filter.edit 1 keywords add '' @ [CHR 0x22] @ ''freedom'' @ [CHR 0x22, CHR 0xE2, CHR 0x80, CHR 0x82, CHR 0x0A]) @
     ([CHR 0x0A]) @
     (''Not forward the messages that sent by the user '' @ [CHR 0x22] @ ''Nonfree Lover'' @ [CHR 0x22] @ '' :'' @ [CHR 0x0A]) @
     ([CHR 0x0A]) @
     ([CHR 0xE2, CHR 0x80, CHR 0x82] @ ''TGFCMD filter.edit 1 no-senders add '' @ [CHR 0x22] @ ''Nonfree Lover'' @ [CHR 0x22, CHR 0xE2, CHR 0x80, CHR 0x82, CHR 0x0A]) @
     ([CHR 0x0A]) @
     (''<CLICK-TO-HIDE>'' @ [CHR 0x0A]) @
     ([CHR 0x0A]) @
     (''MORE EXAMPLES :'' @ [CHR 0x0A]) @
     ([CHR 0x0A]) @
     (''(note: multiples messages should be sent one by one)'' @ [CHR 0x0A]) @
     ([CHR 0x0A]) @
     (''Forward two types of messages, the first contains a word '' @ [CHR 0x22] @ ''free things'' @ [CHR 0x22] @ '' and belongs to the chat '' @ [CHR 0x22] @ ''Nonfree Lovers'' @ [CHR 0x22] @ '', the second contains a word '' @ [CHR 0x22] @ ''nonfree things'' @ [CHR 0x22] @ '' and belongs to '' @ [CHR 0x22] @ ''Free Lovers'' @ [CHR 0x22] @ '':'' @ [CHR 0x0A]) @
     ([CHR 0x0A]) @
     ([CHR 0xE2, CHR 0x80, CHR 0x82] @ ''TGFCMD filter.edit 1 titles add '' @ [CHR 0x22] @ ''Nonfree Lovers'' @ [CHR 0x22, CHR 0xE2, CHR 0x80, CHR 0x82, CHR 0x0A]) @
     ([CHR 0xE2, CHR 0x80, CHR 0x82] @ ''TGFCMD filter.edit 1 keywords add '' @ [CHR 0x22] @ ''free things'' @ [CHR 0x22, CHR 0xE2, CHR 0x80, CHR 0x82, CHR 0x0A]) @
     ([CHR 0xE2, CHR 0x80, CHR 0x82] @ ''TGFCMD filter.edit 2 titles add '' @ [CHR 0x22] @ ''Free Lovers'' @ [CHR 0x22, CHR 0xE2, CHR 0x80, CHR 0x82, CHR 0x0A]) @
     ([CHR 0xE2, CHR 0x80, CHR 0x82] @ ''TGFCMD filter.edit 2 keywords add '' @ [CHR 0x22] @ ''nonfree things'' @ [CHR 0x22, CHR 0xE2, CHR 0x80, CHR 0x82, CHR 0x0A]) @
     ([CHR 0x0A]) @
     (''<CLICK-TO-HIDE>'' @ [CHR 0x0A]) @
     ([CHR 0x0A]) @
     (''Please check'' @ [CHR 0xE2, CHR 0x80, CHR 0x83] @ ''the project page'' @ [CHR 0xE2, CHR 0x80, CHR 0x83] @ ''for more details.'' @ [CHR 0x0A])"

section \<open>State and results\<close>

record cstate =
  cs_world :: world
  cs_pause :: bool

type_synonym cmd_result = "string option \<times> string option \<times> string"

datatype ChatCmdType =
    ChatCmdPause
  | ChatCmdResume
  | ChatCmdFilters
  | ChatCmdRawFilters
  | ChatCmdEditFilter
  | ChatCmdInsertFilter
  | ChatCmdRemoveFilter
  | ChatCmdHelp

text \<open>What the handlers are given besides the command: the engine, the TOML library, the data directory.\<close>

record 're cmd_env =
  ce_eng :: "'re engine"
  ce_toml :: "string \<Rightarrow> toml_table list option"
  ce_i0 :: nat
  ce_user :: UserData

text \<open>The filter group as stored.\<close>

definition load_group :: "'re cmd_env \<Rightarrow> world \<Rightarrow> 're FilterGroup res" where
  "load_group e w =
     res_map (new_FilterGroupToml (ce_eng e) (ce_toml e) (ce_i0 e)) (get_filters (ce_user e) w)"

definition store_group :: "'re cmd_env \<Rightarrow> 're FilterGroup \<Rightarrow> cstate \<Rightarrow> cstate res" where
  "store_group e fg c =
     res_map (\<lambda>w. c\<lparr>cs_world := w\<rparr>) (set_filters (ce_user e) (as_fsdata fg) (cs_world c))"

section \<open>Simple commands\<close>

definition handle_pause :: "string \<Rightarrow> cstate \<Rightarrow> (cmd_result \<times> cstate) res" where
  "handle_pause cmdipt c = Ok ((Some [], Some cmdipt, ''success''), c\<lparr>cs_pause := True\<rparr>)"

definition handle_resume :: "string \<Rightarrow> cstate \<Rightarrow> (cmd_result \<times> cstate) res" where
  "handle_resume cmdipt c = Ok ((Some [], Some cmdipt, ''success''), c\<lparr>cs_pause := False\<rparr>)"

definition handle_rawfilters :: "'re cmd_env \<Rightarrow> string \<Rightarrow> cstate \<Rightarrow> (cmd_result \<times> cstate) res" where
  "handle_rawfilters e cmdipt c =
     res_map (\<lambda>s. ((Some [], Some cmdipt, s), c)) (get_filters (ce_user e) (cs_world c))"

definition handle_filters :: "'re cmd_env \<Rightarrow> string \<Rightarrow> cstate \<Rightarrow> (cmd_result \<times> cstate) res" where
  "handle_filters e cmdipt c =
     res_map (\<lambda>fg. ((Some [], Some cmdipt, [CHR 0x0A] @ group_as_readable fg), c))
       (load_group e (cs_world c))"

definition handle_help :: "string \<Rightarrow> cstate \<Rightarrow> (cmd_result \<times> cstate) res" where
  "handle_help cmdipt c = Ok ((Some [], Some cmdipt, [CHR 0x0A] @ help_text), c)"

section \<open>Commands with arguments\<close>

text \<open>
  The next word after position \<open>endi\<close>: skip blanks, then up to the next blank; also the
  position of that blank.
\<close>

definition next_chunk :: "string \<Rightarrow> nat \<Rightarrow> (string \<times> nat option) option" where
  "next_chunk s endi =
     (case find_first_not_of '' '' s endi of
        None \<Rightarrow> None
      | Some begi \<Rightarrow>
          (let e = find_first_of '' '' s begi in Some (substr_between s begi e, e)))"

text \<open>The label \<open>bad_rtn\<close> of the three editing commands.\<close>

definition bad_rtn :: "string \<Rightarrow> string \<Rightarrow> string \<Rightarrow> cstate \<Rightarrow> (cmd_result \<times> cstate) res" where
  "bad_rtn usage cmdipt auxmsg c =
     Ok ((None, Some (cmdipt @ '' ''), auxmsg @ [CHR 0x0A, CHR 0x0A] @ usage), c)"

definition handle_insfilter :: "'re cmd_env \<Rightarrow> string \<Rightarrow> cstate \<Rightarrow> (cmd_result \<times> cstate) res" where
  "handle_insfilter e cmdipt c =
     (let bad = (\<lambda>aux. bad_rtn CHATCMD_INSF_USAGE cmdipt aux c);
          proceed = (\<lambda>filter_id.
            res_bind (load_group e (cs_world c)) (\<lambda>fg.
            res_bind (ins_filter (ce_eng e) filter_id None fg) (\<lambda>(ok, _, fg').
              if ok then
                res_map (\<lambda>c'. ((Some [], Some cmdipt, ''success''), c')) (store_group e fg' c)
              else bad ''failed'')))
      in if str_find CHATCMD_INSF cmdipt \<noteq> Some 0 then bad []
         else case find_first_of '' '' cmdipt 0 of
                None \<Rightarrow> proceed (- 1)
              | Some endi \<Rightarrow>
                  (case next_chunk cmdipt endi of
                     None \<Rightarrow> proceed (- 1)
                   | Some (chunk1, _) \<Rightarrow>
                       (let may_filter_id = atoi (c_str chunk1)
                        in if sint may_filter_id \<le> 0 then bad (''invalid '' @ CHATCMD_INSF_ARG1)
                           else proceed may_filter_id)))"

definition handle_rmfilter :: "'re cmd_env \<Rightarrow> string \<Rightarrow> cstate \<Rightarrow> (cmd_result \<times> cstate) res" where
  "handle_rmfilter e cmdipt c =
     (let bad = (\<lambda>aux. bad_rtn CHATCMD_RMF_USAGE cmdipt aux c)
      in if str_find CHATCMD_RMF cmdipt \<noteq> Some 0 then bad []
         else case find_first_of '' '' cmdipt 0 of
                None \<Rightarrow> bad (''need '' @ CHATCMD_RMF_ARG1)
              | Some endi \<Rightarrow>
                  (case next_chunk cmdipt endi of
                     None \<Rightarrow> bad (''need '' @ CHATCMD_RMF_ARG1)
                   | Some (chunk1, _) \<Rightarrow>
                       (let filter_id = atoi (c_str chunk1) :: u32
                        in if filter_id \<le> 0 then bad (''invalid '' @ CHATCMD_RMF_ARG1)
                           else
                             res_bind (load_group e (cs_world c)) (\<lambda>fg.
                             res_bind (rm_filter filter_id fg) (\<lambda>(ok, _, fg').
                               if ok then
                                 res_map (\<lambda>c'. ((Some [], Some cmdipt, ''success''), c'))
                                   (store_group e fg' c)
                               else bad ''failed'')))))"

text \<open>The chain of \<open>else if\<close> on property and action.\<close>

definition edit_action ::
  "'re engine \<Rightarrow> string \<Rightarrow> string \<Rightarrow> u32 \<Rightarrow> string \<Rightarrow> 're FilterGroup \<Rightarrow> 're edit_result option" where
  "edit_action eng property action n v fg =
     (if property = ''titles'' \<and> action = ''add'' then Some (add_titles eng n v fg)
      else if property = ''titles'' \<and> action = ''del'' then Some (del_titles eng n v fg)
      else if property = ''no-titles'' \<and> action = ''add'' then Some (add_no_titles eng n v fg)
      else if property = ''no-titles'' \<and> action = ''del'' then Some (del_no_titles eng n v fg)
      else if property = ''keywords'' \<and> action = ''add'' then Some (add_keywords eng n v fg)
      else if property = ''keywords'' \<and> action = ''del'' then Some (del_keywords eng n v fg)
      else if property = ''no-keywords'' \<and> action = ''add'' then Some (add_no_keywords eng n v fg)
      else if property = ''no-keywords'' \<and> action = ''del'' then Some (del_no_keywords eng n v fg)
      else if property = ''senders'' \<and> action = ''add'' then Some (add_senders eng n v fg)
      else if property = ''senders'' \<and> action = ''del'' then Some (del_senders eng n v fg)
      else if property = ''no-senders'' \<and> action = ''add'' then Some (add_no_senders eng n v fg)
      else if property = ''no-senders'' \<and> action = ''del'' then Some (del_no_senders eng n v fg)
      else None)"

text \<open>Once the four arguments are there.\<close>

definition run_edit ::
  "'re cmd_env \<Rightarrow> string \<Rightarrow> cstate \<Rightarrow> string \<Rightarrow> string \<Rightarrow> string \<Rightarrow> string \<Rightarrow> (cmd_result \<times> cstate) res" where
  "run_edit e cmdipt c chunk1 property action chunk4 =
     (let bad = (\<lambda>aux. bad_rtn CHATCMD_EDITF_USAGE cmdipt aux c);
          filter_id = atoi (c_str chunk1) :: u32
      in if filter_id \<le> 0 then bad (''invalid '' @ CHATCMD_EDITF_ARG1)
         else if property \<noteq> ''titles'' \<and> property \<noteq> ''no-titles'' \<and> property \<noteq> ''keywords'' \<and>
                 property \<noteq> ''no-keywords'' \<and> property \<noteq> ''senders'' \<and> property \<noteq> ''no-senders'' then
           bad (''invalid '' @ CHATCMD_EDITF_ARG2)
         else if action \<noteq> ''add'' \<and> action \<noteq> ''del'' then bad (''invalid '' @ CHATCMD_EDITF_ARG3)
         else if hd chunk4 \<noteq> CHR 0x22 \<or> last chunk4 \<noteq> CHR 0x22 then
           bad (''invalid '' @ CHATCMD_EDITF_ARG4)
         else
           (let unquoted_re =
                  (if length chunk4 \<ge> 2 then take (length chunk4 - 2) (drop 1 chunk4) else drop 1 chunk4)
            in if \<not> is_pattern_accept (regex_of (ce_eng e) unquoted_re) then
                 bad (''invalid '' @ CHATCMD_EDITF_ARG4)
               else
                 res_bind (load_group e (cs_world c)) (\<lambda>fg.
                   case edit_action (ce_eng e) property action filter_id unquoted_re fg of
                     None \<Rightarrow> bad (''not supported:'' @ property @ action)
                   | Some r \<Rightarrow>
                       res_bind r (\<lambda>(action_res, filter_id', fg').
                         if \<not> action_res then bad (''failed: '' @ property @ action)
                         else
                           res_map
                             (\<lambda>c'. ((Some [],
                                     Some (CHATCMD_EDITF @ '' '' @ show_nat (unat filter_id') @ '' '' @
                                       property @ '' '' @ action @ '' '' @ [CHR 0x22] @ unquoted_re @
                                       [CHR 0x22] @ '' ''),
                                     ''success''), c'))
                             (store_group e fg' c)))))"

definition handle_editfilter :: "'re cmd_env \<Rightarrow> string \<Rightarrow> cstate \<Rightarrow> (cmd_result \<times> cstate) res" where
  "handle_editfilter e cmdipt c =
     (let bad = (\<lambda>aux. bad_rtn CHATCMD_EDITF_USAGE cmdipt aux c)
      in if str_find CHATCMD_EDITF cmdipt \<noteq> Some 0 then bad []
         else case find_first_of '' '' cmdipt 0 of
                None \<Rightarrow> bad (''need '' @ CHATCMD_EDITF_ARG1)
              | Some e0 \<Rightarrow>
         (case next_chunk cmdipt e0 of
                None \<Rightarrow> bad (''need '' @ CHATCMD_EDITF_ARG1)
              | Some (chunk1, None) \<Rightarrow> bad (''need '' @ CHATCMD_EDITF_ARG2)
              | Some (chunk1, Some e1) \<Rightarrow>
         (case next_chunk cmdipt e1 of
                None \<Rightarrow> bad (''need '' @ CHATCMD_EDITF_ARG2)
              | Some (chunk2, None) \<Rightarrow> bad (''need '' @ CHATCMD_EDITF_ARG3)
              | Some (chunk2, Some e2) \<Rightarrow>
         (case next_chunk cmdipt e2 of
                None \<Rightarrow> bad (''need '' @ CHATCMD_EDITF_ARG3)
              | Some (chunk3, None) \<Rightarrow> bad (''need '' @ CHATCMD_EDITF_ARG4)
              | Some (chunk3, Some e3) \<Rightarrow>
         (case find_first_not_of '' '' cmdipt e3 of
                None \<Rightarrow> bad (''need '' @ CHATCMD_EDITF_ARG4)
              | Some b4 \<Rightarrow> run_edit e cmdipt c chunk1 chunk2 chunk3 (drop b4 cmdipt))))))"

section \<open>The handler\<close>

record ChatCmdHandler =
  h_succ_data :: "string option"
  h_did_what :: "string option"
  h_aux_msg :: string

fun dispatch_cmd ::
  "'re cmd_env \<Rightarrow> ChatCmdType \<Rightarrow> string \<Rightarrow> cstate \<Rightarrow> (cmd_result \<times> cstate) res" where
  "dispatch_cmd e ChatCmdPause ipt c = handle_pause ipt c"
| "dispatch_cmd e ChatCmdResume ipt c = handle_resume ipt c"
| "dispatch_cmd e ChatCmdRawFilters ipt c = handle_rawfilters e ipt c"
| "dispatch_cmd e ChatCmdFilters ipt c = handle_filters e ipt c"
| "dispatch_cmd e ChatCmdEditFilter ipt c = handle_editfilter e ipt c"
| "dispatch_cmd e ChatCmdInsertFilter ipt c = handle_insfilter e ipt c"
| "dispatch_cmd e ChatCmdRemoveFilter ipt c = handle_rmfilter e ipt c"
| "dispatch_cmd e ChatCmdHelp ipt c = handle_help ipt c"

definition new_ChatCmdHandler ::
  "'re cmd_env \<Rightarrow> ChatCmdType \<Rightarrow> string \<Rightarrow> cstate \<Rightarrow> (ChatCmdHandler \<times> cstate) res" where
  "new_ChatCmdHandler e t ipt c =
     res_map (\<lambda>((succ, did, aux), c').
         (\<lparr>h_succ_data = succ, h_did_what = did, h_aux_msg = CHATCMD_RPLY_PREFIX @ aux\<rparr>, c'))
       (dispatch_cmd e t (erase_front ipt (find_first_not_of '' '' ipt 0)) c)"

definition cmd_done :: "ChatCmdHandler \<Rightarrow> bool" where
  "cmd_done h = (h_succ_data h \<noteq> None)"


section \<open>What every command does\<close>

text \<open>The filters a command works on: readable, with at least one filter, and of sane size.\<close>

definition cmd_ready :: "'re cmd_env \<Rightarrow> world \<Rightarrow> bool" where
  "cmd_ready e w =
     (data_ok (ce_user e) w \<and>
      (case load_group e w of
         Ok g \<Rightarrow> group_ok g \<and> length (filters g) < 2 ^ 32
       | Undef \<Rightarrow> False))"

lemma set_filters_ok:
  "data_ok u w \<Longrightarrow> \<exists>w'. set_filters u t w = Ok w' \<and> data_ok u w' \<and>
     view u w' = res_map (abs_update (SetFilters t)) (view u w)"
  using update_view [of u w "SetFilters t"] by simp

text \<open>
  What a command may do: it returns a reply, changes at most the filter setting, sets the flag to
  \<open>p\<close>, and a command that fails changes nothing.
\<close>

definition outcome_ok :: "'re cmd_env \<Rightarrow> bool \<Rightarrow> cstate \<Rightarrow> (cmd_result \<times> cstate) res \<Rightarrow> bool" where
  "outcome_ok e p c r =
     (\<exists>succ did aux c'. r = Ok ((succ, Some did, aux), c') \<and> (succ = None \<longrightarrow> c' = c) \<and>
        data_ok (ce_user e) (cs_world c') \<and> cs_pause c' = p \<and>
        (\<exists>f. view (ce_user e) (cs_world c') =
               res_map (s_filters_update f) (view (ce_user e) (cs_world c))))"

lemma res_map_settings_id: "r = res_map (s_filters_update (\<lambda>x. x)) r"
  by (cases r) simp_all

lemma outcome_keep [wf_intros]:
  "data_ok (ce_user e) (cs_world c) \<Longrightarrow> cs_world c' = cs_world c \<Longrightarrow> succ = None \<longrightarrow> c' = c \<Longrightarrow>
     cs_pause c' = p \<Longrightarrow> outcome_ok e p c (Ok ((succ, Some did, aux), c'))"
  using res_map_settings_id [of "view (ce_user e) (cs_world c)"]
  by (auto simp: outcome_ok_def)

lemma outcome_bad [wf_intros]:
  "data_ok (ce_user e) (cs_world c) \<Longrightarrow> outcome_ok e (cs_pause c) c (bad_rtn usage ipt aux c)"
  by (simp add: bad_rtn_def outcome_keep)

lemma outcome_store [wf_intros]:
  assumes "data_ok (ce_user e) (cs_world c)"
  shows "outcome_ok e (cs_pause c) c
    (res_map (\<lambda>c'. ((Some [], Some did, aux), c')) (store_group e g c))"
proof -
  have *: "\<exists>f. abs_update (SetFilters t) s = s_filters_update f s" for t s
    by (cases "t = []") (auto intro: exI [of _ "\<lambda>x. x"] exI [of _ "\<lambda>_. readable t"])
  have "\<exists>f. res_map (abs_update (SetFilters t)) r = res_map (s_filters_update f) r" for t r
    using * by (cases r) auto
  with set_filters_ok [OF assms, of "as_fsdata g"] show ?thesis
    by (fastforce simp: outcome_ok_def store_group_def)
qed

lemma cmd_readyD:
  assumes "cmd_ready e w"
  obtains g where "data_ok (ce_user e) w" and "load_group e w = Ok g" and "group_ok g"
    and "length (filters g) < 2 ^ 32"
  using assms by (auto simp: cmd_ready_def split: res.splits)

lemma outcome_insfilter:
  assumes "cmd_ready e (cs_world c)"
  shows "outcome_ok e (cs_pause c) c (handle_insfilter e ipt c)"
proof -
  obtain g where ok: "data_ok (ce_user e) (cs_world c)" and g: "load_group e (cs_world c) = Ok g"
    and "group_ok g" using assms by (rule cmd_readyD)
  have run: "outcome_ok e (cs_pause c) c
      (res_bind (ins_filter (ce_eng e) n None g) (\<lambda>(b, _, fg').
         if b then res_map (\<lambda>c'. ((Some [], Some ipt, ''success''), c')) (store_group e fg' c)
         else bad_rtn CHATCMD_INSF_USAGE ipt ''failed'' c))" for n
    using ins_filter_ok [OF \<open>group_ok g\<close>, of None "ce_eng e" n] ok by (auto intro!: wf_intros)
  show ?thesis
    by (auto simp: handle_insfilter_def Let_def g run ok intro!: wf_intros split: option.split)
qed

lemma outcome_rmfilter:
  assumes "cmd_ready e (cs_world c)"
  shows "outcome_ok e (cs_pause c) c (handle_rmfilter e ipt c)"
proof -
  obtain g where ok: "data_ok (ce_user e) (cs_world c)" and g: "load_group e (cs_world c) = Ok g"
    and wf: "group_ok g" "length (filters g) < 2 ^ 32" using assms by (rule cmd_readyD)
  have run: "outcome_ok e (cs_pause c) c
      (res_bind (rm_filter n g) (\<lambda>(b, _, fg').
         if b then res_map (\<lambda>c'. ((Some [], Some ipt, ''success''), c')) (store_group e fg' c)
         else bad_rtn CHATCMD_RMF_USAGE ipt ''failed'' c))" for n
    using rm_filter_ok [OF wf, of n] ok by (auto intro!: wf_intros)
  show ?thesis
    by (auto simp: handle_rmfilter_def Let_def g run ok intro!: wf_intros split: option.split)
qed

text \<open>The property words, and which edit a command asks for.\<close>

fun property_word :: "FilterProperty \<Rightarrow> string" where
  "property_word FilterPropertyTitles = ''titles''"
| "property_word FilterPropertyNoTitles = ''no-titles''"
| "property_word FilterPropertyKeywords = ''keywords''"
| "property_word FilterPropertyNoKeywords = ''no-keywords''"
| "property_word FilterPropertySenders = ''senders''"
| "property_word FilterPropertyNoSenders = ''no-senders''"

lemmas one_defs = add_titles_def del_titles_def add_no_titles_def del_no_titles_def
  add_keywords_def del_keywords_def add_no_keywords_def del_no_keywords_def
  add_senders_def del_senders_def add_no_senders_def del_no_senders_def

lemma edit_action_word:
  "edit_action eng (property_word p) ''add'' n v g = Some (add_one eng n p v g)"
  "edit_action eng (property_word p) ''del'' n v g = Some (del_one eng n p v g)"
  by (cases p; simp add: edit_action_def one_defs)+

lemma property_word_cases:
  assumes "\<not> (s \<noteq> ''titles'' \<and> s \<noteq> ''no-titles'' \<and> s \<noteq> ''keywords'' \<and> s \<noteq> ''no-keywords'' \<and>
      s \<noteq> ''senders'' \<and> s \<noteq> ''no-senders'')"
  obtains p where "s = property_word p"
  using assms by (metis property_word.simps)

lemma edit_action_ok:
  assumes "group_ok g" and "length (filters g) < 2 ^ 32"
    and "action = ''add'' \<or> action = ''del''"
  shows "\<exists>b n' g'. edit_action eng (property_word p) action n v g = Some (Ok (b, n', g'))"
  using assms(3) add_one_ok [OF assms(1,2), of eng n p v] del_one_ok [OF assms(1,2), of eng n p v]
  by (auto simp: edit_action_word)

lemma outcome_if:
  "(b \<Longrightarrow> outcome_ok e p c x) \<Longrightarrow> (\<not> b \<Longrightarrow> outcome_ok e p c y) \<Longrightarrow>
     outcome_ok e p c (if b then x else y)"
  by simp

lemma outcome_run_edit:
  assumes "cmd_ready e (cs_world c)"
  shows "outcome_ok e (cs_pause c) c (run_edit e ipt c w1 w2 w3 w4)"
proof -
  obtain g where ok: "data_ok (ce_user e) (cs_world c)" and g: "load_group e (cs_world c) = Ok g"
    and wf: "group_ok g" "length (filters g) < 2 ^ 32" using assms by (rule cmd_readyD)
  have run: "outcome_ok e (cs_pause c) c
      (case edit_action (ce_eng e) w2 w3 n v g of
         None \<Rightarrow> bad_rtn CHATCMD_EDITF_USAGE ipt a c
       | Some r \<Rightarrow> res_bind r (\<lambda>(b, n', g').
           if \<not> b then bad_rtn CHATCMD_EDITF_USAGE ipt a' c
           else res_map (\<lambda>c'. ((Some [], Some (did n'), ''success''), c')) (store_group e g' c)))"
    if valid: "\<not> (w2 \<noteq> ''titles'' \<and> w2 \<noteq> ''no-titles'' \<and> w2 \<noteq> ''keywords'' \<and>
        w2 \<noteq> ''no-keywords'' \<and> w2 \<noteq> ''senders'' \<and> w2 \<noteq> ''no-senders'')"
      "\<not> (w3 \<noteq> ''add'' \<and> w3 \<noteq> ''del'')" for n v a a' did
  proof -
    obtain p where p: "w2 = property_word p" using valid(1) by (rule property_word_cases)
    obtain b n' g' where "edit_action (ce_eng e) w2 w3 n v g = Some (Ok (b, n', g'))"
      using edit_action_ok [OF wf, of w3 "ce_eng e" p n v] valid(2) p by blast
    then show ?thesis
      by (simp add: outcome_bad [OF ok] outcome_store [OF ok])
  qed
  show ?thesis
    unfolding run_edit_def Let_def g res_bind.simps
    by (intro outcome_if outcome_bad ok run)
qed

lemma outcome_editfilter:
  assumes "cmd_ready e (cs_world c)"
  shows "outcome_ok e (cs_pause c) c (handle_editfilter e ipt c)"
proof -
  have ok: "data_ok (ce_user e) (cs_world c)" using assms by (simp add: cmd_ready_def)
  show ?thesis
    by (simp add: handle_editfilter_def Let_def outcome_bad [OF ok] outcome_run_edit [OF assms]
        split: option.split prod.split)
qed

lemma outcome_dispatch:
  assumes "cmd_ready e (cs_world c)"
  shows "outcome_ok e (t = ChatCmdPause \<or> t \<noteq> ChatCmdResume \<and> cs_pause c) c (dispatch_cmd e t ipt c)"
proof -
  obtain g where ok: "data_ok (ce_user e) (cs_world c)" and g: "load_group e (cs_world c) = Ok g"
    using assms by (rule cmd_readyD)
  obtain s where "get_filters (ce_user e) (cs_world c) = Ok s"
    using g by (cases "get_filters (ce_user e) (cs_world c)") (simp_all add: load_group_def)
  with ok g show ?thesis
    using outcome_editfilter [OF assms] outcome_insfilter [OF assms] outcome_rmfilter [OF assms]
    by (cases t)
      (simp_all add: handle_pause_def handle_resume_def handle_rawfilters_def handle_filters_def
        handle_help_def outcome_keep)
qed

text \<open>
  C15: Over a usable data directory whose filters form a non-empty group, every command returns a
  reply that starts with the reply mark. No command changes a setting other than the filters, the
  pause flag is changed by pause and resume alone, the directory stays usable, and a command that
  fails changes nothing at all.
\<close>

theorem commands_contract:
  assumes "cmd_ready e (cs_world c)"
  shows "\<exists>h c'. new_ChatCmdHandler e t ipt c = Ok (h, c') \<and>
           prefix CHATCMD_RPLY_PREFIX (h_aux_msg h) \<and>
           (cmd_done h \<or> c' = c) \<and> data_ok (ce_user e) (cs_world c') \<and>
           cs_pause c' = (t = ChatCmdPause \<or> t \<noteq> ChatCmdResume \<and> cs_pause c) \<and>
           (\<exists>f. view (ce_user e) (cs_world c') =
                  res_map (s_filters_update f) (view (ce_user e) (cs_world c)))"
  using outcome_dispatch [OF assms, of t "erase_front ipt (find_first_not_of '' '' ipt 0)"]
  by (auto simp: outcome_ok_def new_ChatCmdHandler_def cmd_done_def)

section \<open>Parsing of arguments\<close>

text \<open>A blank-free word in front of a blank, or of the end, is read as it stands.\<close>

definition chunk_word :: "string \<Rightarrow> bool" where
  "chunk_word s = (s \<noteq> [] \<and> CHR '' '' \<notin> set s)"

lemma find_idx_word:
  "CHR '' '' \<notin> set s \<Longrightarrow> find_idx (\<lambda>c. c \<in> set '' '') (s @ CHR '' '' # r) = Some (length s)"
  by (subst find_idx_append) auto

lemma find_first_of_word:
  "CHR '' '' \<notin> set s \<Longrightarrow>
     find_first_of '' '' (pre @ s @ CHR '' '' # r) (length pre) = Some (length pre + length s)"
  using find_idx_word [of s r] by (simp add: find_first_of_def)

lemma find_first_not_of_blank:
  "c \<noteq> CHR '' '' \<Longrightarrow>
     find_first_not_of '' '' (pre @ CHR '' '' # c # r) (length pre) = Some (Suc (length pre))"
  by (simp add: find_first_not_of_def)

lemma next_chunk_word:
  assumes "chunk_word s"
  shows "next_chunk (pre @ CHR '' '' # s @ CHR '' '' # r) (length pre) =
           Some (s, Some (Suc (length pre + length s)))"
proof -
  obtain c cs where s: "s = c # cs" and c: "c \<noteq> CHR '' ''"
    using assms by (cases s) (auto simp: chunk_word_def)
  have "find_first_not_of '' '' (pre @ CHR '' '' # s @ CHR '' '' # r) (length pre) = Some (Suc (length pre))"
    using find_first_not_of_blank [OF c] s by simp
  moreover have "find_first_of '' '' (pre @ CHR '' '' # s @ CHR '' '' # r) (Suc (length pre)) =
      Some (Suc (length pre + length s))"
    using find_first_of_word [of s "pre @ '' ''" r] assms by (simp add: chunk_word_def)
  ultimately show ?thesis
    by (simp add: next_chunk_def substr_between_def)
qed

lemma editfilter_words:
  assumes "chunk_word w1" and "chunk_word w2" and "chunk_word w3"
  shows "handle_editfilter e
      (CHATCMD_EDITF @ '' '' @ w1 @ '' '' @ w2 @ '' '' @ w3 @ '' '' @ [CHR 0x22] @ v @ [CHR 0x22]) c =
    run_edit e
      (CHATCMD_EDITF @ '' '' @ w1 @ '' '' @ w2 @ '' '' @ w3 @ '' '' @ [CHR 0x22] @ v @ [CHR 0x22]) c
      w1 w2 w3 ([CHR 0x22] @ v @ [CHR 0x22])"
proof -
  let ?q = "[CHR 0x22] @ v @ [CHR 0x22]"
  let ?s = "CHATCMD_EDITF @ '' '' @ w1 @ '' '' @ w2 @ '' '' @ w3 @ '' '' @ ?q"
  let ?p1 = "CHATCMD_EDITF @ '' '' @ w1"
  let ?p2 = "?p1 @ '' '' @ w2"
  let ?p3 = "?p2 @ '' '' @ w3"
  have f0: "find_first_of '' '' ?s 0 = Some (length CHATCMD_EDITF)"
    using find_first_of_word [of CHATCMD_EDITF "[]"] by (simp add: CHATCMD_EDITF_def)
  have n1: "next_chunk ?s (length CHATCMD_EDITF) = Some (w1, Some (length ?p1))"
    using next_chunk_word [OF assms(1), of CHATCMD_EDITF "w2 @ '' '' @ w3 @ '' '' @ ?q"] by simp
  have n2: "next_chunk ?s (length ?p1) = Some (w2, Some (length ?p2))"
    using next_chunk_word [OF assms(2), of ?p1 "w3 @ '' '' @ ?q"] by simp
  have n3: "next_chunk ?s (length ?p2) = Some (w3, Some (length ?p3))"
    using next_chunk_word [OF assms(3), of ?p2 "?q"] by simp
  have n4: "find_first_not_of '' '' ?s (length ?p3) = Some (Suc (length ?p3))"
    using find_first_not_of_blank [of "CHR 0x22" ?p3 "v @ [CHR 0x22]"] by simp
  have "drop (length (?p3 @ '' '')) ((?p3 @ '' '') @ ?q) = ?q"
    by (rule append_eq_conv_conj [THEN iffD1, THEN conjunct2, symmetric, OF refl])
  then have d: "drop (Suc (length ?p3)) ?s = ?q" by simp
  have "str_find CHATCMD_EDITF ?s = Some 0" by (simp only: str_find_zero_iff prefix_def) blast
  then show ?thesis
    by (simp only: handle_editfilter_def Let_def f0 n1 n2 n3 n4 d option.case prod.case
        HOL.simp_thms if_False)
qed

section \<open>The edit command and the stored tables\<close>

lemma filter_regexes_prop:
  "list_all P (filter_regexes f) \<longleftrightarrow> (\<forall>p. list_all P (prop_list p f))"
proof
  assume "list_all P (filter_regexes f)"
  then show "\<forall>p. list_all P (prop_list p f)"
    by (intro allI, case_tac p) (simp_all add: filter_regexes_def)
next
  assume all: "\<forall>p. list_all P (prop_list p f)"
  note all [rule_format, of FilterPropertyTitles] all [rule_format, of FilterPropertyNoTitles]
    all [rule_format, of FilterPropertySenders] all [rule_format, of FilterPropertyNoSenders]
    all [rule_format, of FilterPropertyKeywords] all [rule_format, of FilterPropertyNoKeywords]
  then show "list_all P (filter_regexes f)" by (simp add: filter_regexes_def)
qed

lemma filter_regexes_set:
  "list_all P (filter_regexes f) \<Longrightarrow> list_all P l \<Longrightarrow> list_all P (filter_regexes (set_prop_list p l f))"
  by (simp add: filter_regexes_prop)

text \<open>What holds of every filter and is kept by changing one list holds after an edit.\<close>

lemma list_all_nth: "list_all Q xs \<Longrightarrow> i < length xs \<Longrightarrow> Q (xs ! i)"
  by (simp add: list_all_length)

lemma add_one_all:
  assumes "filters g \<noteq> []" and "length (filters g) < 2 ^ 32" and "n \<noteq> 0"
    and "list_all Q (filters g)" and "Q empty_filter"
    and "\<And>f. Q f \<Longrightarrow> Q (set_prop_list p (prop_list p f @ [regex_of eng v]) f)"
    and "add_one eng n p v g = Ok (b, n', g')"
  shows "list_all Q (filters g') \<and> filters g' \<noteq> []"
proof -
  let ?fs = "if unat n - 1 < length (filters g) then filters g else filters g @ [empty_filter]"
  let ?i = "min (unat n - 1) (length (filters g))"
  have all: "list_all Q ?fs" using assms(4,5) by simp
  have "?i < length ?fs" by (auto simp: min_def)
  from assms(6) [OF list_all_nth [OF all this]]
  have new: "Q (set_prop_list p (prop_list p (?fs ! ?i) @ [regex_of eng v]) (?fs ! ?i))" .
  have "filters g' = (if is_pattern_accept (regex_of eng v)
      then ?fs[?i := set_prop_list p (prop_list p (?fs ! ?i) @ [regex_of eng v]) (?fs ! ?i)] else ?fs)"
    using assms(7) by (simp only: add_one_eq [OF assms(1-3)] Let_def) auto
  with all list_all_update [OF all new, of ?i] assms(1) show ?thesis
    by (cases "is_pattern_accept (regex_of eng v)") (simp_all only: if_True if_False, auto)
qed

lemma del_one_all:
  assumes "filters g \<noteq> []" and "length (filters g) < 2 ^ 32" and "n \<noteq> 0"
    and "list_all Q (filters g)"
    and "\<And>f. Q f \<Longrightarrow> Q (set_prop_list p (erase_first_ptn v (prop_list p f)) f)"
    and "del_one eng n p v g = Ok (b, n', g')"
  shows "list_all Q (filters g') \<and> filters g' \<noteq> []"
proof -
  let ?i = "min (unat n - 1) (length (filters g) - 1)" and ?fs = "filters g"
  have "?i < length ?fs" using assms(1) by (simp add: min_less_iff_disj)
  from assms(5) [OF list_all_nth [OF assms(4) this]]
  have new: "Q (set_prop_list p (erase_first_ptn v (prop_list p (?fs ! ?i))) (?fs ! ?i))" .
  have "filters g' = (if is_pattern_accept (regex_of eng v)
      then ?fs[?i := set_prop_list p (erase_first_ptn v (prop_list p (?fs ! ?i))) (?fs ! ?i)] else ?fs)"
    using assms(6) by (simp only: del_one_eq [OF assms(1-3)] Let_def) (auto split: if_splits)
  with list_all_update [OF assms(4) new, of ?i] assms(1,4) show ?thesis
    by (cases "is_pattern_accept (regex_of eng v)") (simp_all only: if_True if_False, auto)
qed

lemma edit_storable:
  assumes "group_storable eng g" and "storable v" and "filters g \<noteq> []"
    and "length (filters g) < 2 ^ 32" and "n \<noteq> 0"
    and "(if ad then add_one eng n p v g else del_one eng n p v g) = Ok (b, n', g')"
  shows "group_storable eng g' \<and> filters g' \<noteq> []"
proof -
  let ?P = "\<lambda>r. r = regex_of eng (ptn r) \<and> storable (ptn r)"
  have e: "list_all ?P (filter_regexes empty_filter)"
    by (simp add: filter_regexes_def empty_filter_def)
  have ins: "list_all ?P (filter_regexes f) \<Longrightarrow>
      list_all ?P (filter_regexes (set_prop_list p (prop_list p f @ [regex_of eng v]) f))"
    and del: "list_all ?P (filter_regexes f) \<Longrightarrow>
      list_all ?P (filter_regexes (set_prop_list p (erase_first_ptn v (prop_list p f)) f))" for f
    using assms(2) erase_first_subset [of v "prop_list p f"]
    by (auto intro!: filter_regexes_set simp: filter_regexes_prop) (auto simp: list_all_iff)
  note all = assms(1) [unfolded group_storable_def]
  show ?thesis
    unfolding group_storable_def
    using add_one_all [OF assms(3-5) all e ins]
      del_one_all [OF assms(3-5) all del] assms(6)
    by (cases ad) simp_all
qed

lemma stored_filters:
  assumes "data_ok u w" and "t \<noteq> []"
  shows "\<exists>w'. set_filters u t w = Ok w' \<and> get_filters u w' = Ok (readable t) \<and>
    view u w' = res_map (abs_update (SetFilters t)) (view u w)"
proof -
  obtain w' where w': "set_filters u t w = Ok w'"
    "view u w' = res_map (abs_update (SetFilters t)) (view u w)"
    using update_view [OF assms(1), of "SetFilters t"] by auto
  have k: "lck_filters u \<noteq> None" "flock_ok w" "\<not> deny w (path_filters u)" "files w (path_filters u) \<noteq> None"
    using assms(1) by (simp_all add: data_ok_def data_paths_def)
  then have "get_filters u w' = Ok (readable t)"
    using update_files [OF assms(1), of "SetFilters t"] assms(2) w'(1)
    by (auto simp: filters_file.get_rd)
  with w' show ?thesis by blast
qed

lemma as_fsdata_ne: "filters g \<noteq> [] \<Longrightarrow> as_fsdata g \<noteq> []"
  by (cases "filters g") (simp_all add: as_fsdata_def)

lemma run_edit_success:
  assumes "load_group e (cs_world c) = Ok g" and "n = atoi (c_str w)" and "n \<noteq> 0"
    and "is_pattern_accept (regex_of (ce_eng e) v)"
    and "(if ad then add_one (ce_eng e) n p v g else del_one (ce_eng e) n p v g) = Ok (True, n', g')"
    and "store_group e g' c = Ok c'"
  shows "\<exists>did. run_edit e ipt c w (property_word p) (if ad then ''add'' else ''del'')
      ([CHR 0x22] @ v @ [CHR 0x22]) = Ok ((Some [], did, ''success''), c')"
proof -
  have a: "edit_action (ce_eng e) (property_word p) (if ad then ''add'' else ''del'') n v g =
      Some (Ok (True, n', g'))"
    using assms(5) by (cases ad) (simp_all add: edit_action_word)
  have g1: "\<not> (property_word p \<noteq> ''titles'' \<and> property_word p \<noteq> ''no-titles'' \<and>
      property_word p \<noteq> ''keywords'' \<and> property_word p \<noteq> ''no-keywords'' \<and>
      property_word p \<noteq> ''senders'' \<and> property_word p \<noteq> ''no-senders'')"
    by (cases p) simp_all
  have g2: "\<not> ((if ad then ''add'' else ''del'') \<noteq> ''add'' \<and> (if ad then ''add'' else ''del'') \<noteq> ''del'')"
    by simp
  have g3: "\<not> (hd ([CHR 0x22] @ v @ [CHR 0x22]) \<noteq> CHR 0x22 \<or> last ([CHR 0x22] @ v @ [CHR 0x22]) \<noteq> CHR 0x22)"
    by simp
  have q: "(if length ([CHR 0x22] @ v @ [CHR 0x22]) \<ge> 2
      then take (length ([CHR 0x22] @ v @ [CHR 0x22]) - 2) (drop 1 ([CHR 0x22] @ v @ [CHR 0x22]))
      else drop 1 ([CHR 0x22] @ v @ [CHR 0x22])) = v"
    by simp
  have z: "\<not> n \<le> 0" using assms(3) by simp
  show ?thesis
    unfolding run_edit_def Let_def assms(2) [symmetric] q assms(1) res_bind.simps a option.case
      prod.case assms(6) res_map.simps
    using z g1 g2 g3 assms(4) by (simp only: if_False HOL.simp_thms) blast
qed

definition edit_command :: "bool \<Rightarrow> string \<Rightarrow> FilterProperty \<Rightarrow> string \<Rightarrow> string" where
  "edit_command ad w p v =
     CHATCMD_EDITF @ '' '' @ w @ '' '' @ property_word p @ '' '' @ (if ad then ''add'' else ''del'') @
     '' '' @ [CHR 0x22] @ v @ [CHR 0x22]"

lemma dispatch_edit:
  assumes "chunk_word w"
  shows "new_ChatCmdHandler e ChatCmdEditFilter (edit_command ad w p v) c =
    res_map (\<lambda>((succ, did, aux), c').
        (\<lparr>h_succ_data = succ, h_did_what = did, h_aux_msg = CHATCMD_RPLY_PREFIX @ aux\<rparr>, c'))
      (run_edit e (edit_command ad w p v) c w (property_word p) (if ad then ''add'' else ''del'')
         ([CHR 0x22] @ v @ [CHR 0x22]))"
proof -
  have "erase_front (edit_command ad w p v) (find_first_not_of '' '' (edit_command ad w p v) 0) =
      edit_command ad w p v"
    by (simp add: erase_leading edit_command_def CHATCMD_EDITF_def)
  moreover have "handle_editfilter e (edit_command ad w p v) c = run_edit e (edit_command ad w p v) c w
      (property_word p) (if ad then ''add'' else ''del'') ([CHR 0x22] @ v @ [CHR 0x22])"
    unfolding edit_command_def
    by (rule editfilter_words [OF assms]) (cases p; cases ad; simp add: chunk_word_def)+
  ultimately show ?thesis by (simp add: new_ChatCmdHandler_def)
qed

lemma edit_command_run:
  assumes "data_ok (ce_user e) (cs_world c)" and "toml_conforms (ce_toml e)"
    and "load_group e (cs_world c) = Ok g" and "group_storable (ce_eng e) g"
    and "filters g \<noteq> []" and "length (filters g) < 2 ^ 32"
    and "chunk_word w" and "atoi (c_str w) \<noteq> 0" and "storable v"
    and "is_pattern_accept (regex_of (ce_eng e) v)"
  shows "\<exists>h w' g'.
    new_ChatCmdHandler e ChatCmdEditFilter (edit_command ad w p v) c = Ok (h, c\<lparr>cs_world := w'\<rparr>) \<and> cmd_done h \<and>
    pats g' = abs_edit (\<lambda>v. is_pattern_accept (regex_of (ce_eng e) v))
      ((if ad then EdAdd else EdDel) (atoi (c_str w)) p v) (pats g) \<and>
    get_filters (ce_user e) w' = Ok (readable (as_fsdata g')) \<and>
    (unreadable_size (length (as_fsdata g')) \<or> res_map filters (load_group e w') = Ok (filters g')) \<and>
    view (ce_user e) w' = res_map (abs_update (SetFilters (as_fsdata g'))) (view (ce_user e) (cs_world c))"
proof -
  let ?n = "atoi (c_str w)" and ?eng = "ce_eng e"
  have "\<exists>n' g'. (if ad then add_one ?eng ?n p v g else del_one ?eng ?n p v g) = Ok (True, n', g')"
    using assms(10) by (auto simp: add_one_eq [OF assms(5,6,8)] del_one_eq [OF assms(5,6,8)] Let_def)
  then obtain n' g' where ed:
    "(if ad then add_one ?eng ?n p v g else del_one ?eng ?n p v g) = Ok (True, n', g')" by blast
  have st: "group_storable ?eng g'" and ne: "filters g' \<noteq> []"
    using edit_storable [OF assms(4,9,5,6,8) ed] by simp_all
  obtain w' where w': "set_filters (ce_user e) (as_fsdata g') (cs_world c) = Ok w'"
    "get_filters (ce_user e) w' = Ok (readable (as_fsdata g'))"
    "view (ce_user e) w' = res_map (abs_update (SetFilters (as_fsdata g'))) (view (ce_user e) (cs_world c))"
    using stored_filters [OF assms(1) as_fsdata_ne [OF ne]] by blast
  have sg: "store_group e g' c = Ok (c\<lparr>cs_world := w'\<rparr>)" by (simp add: store_group_def w')
  have pats: "pats g' = abs_edit (\<lambda>v. is_pattern_accept (regex_of ?eng v))
      ((if ad then EdAdd else EdDel) ?n p v) (pats g)"
    using refine_add [OF assms(5,6), of ?eng ?n p v] refine_del [OF assms(5,6), of ?eng ?n p v] ed
    by (cases ad) simp_all
  have reload: "unreadable_size (length (as_fsdata g')) \<or>
      res_map filters (load_group e w') = Ok (filters g')"
    using new_FilterGroupToml_fsdata [OF assms(2) st ne] w'(2) by (simp add: load_group_def readable_def)
  obtain did where "run_edit e (edit_command ad w p v) c w (property_word p)
      (if ad then ''add'' else ''del'') ([CHR 0x22] @ v @ [CHR 0x22]) =
      Ok ((Some [], did, ''success''), c\<lparr>cs_world := w'\<rparr>)"
    using run_edit_success [OF assms(3) refl assms(8,10) ed sg] by blast
  then have run: "new_ChatCmdHandler e ChatCmdEditFilter (edit_command ad w p v) c =
      Ok (\<lparr>h_succ_data = Some [], h_did_what = did, h_aux_msg = CHATCMD_RPLY_PREFIX @ ''success''\<rparr>,
          c\<lparr>cs_world := w'\<rparr>)"
    by (simp only: dispatch_edit [OF assms(7)] res_map.simps prod.case)
  have "cmd_done \<lparr>h_succ_data = Some [], h_did_what = did, h_aux_msg = CHATCMD_RPLY_PREFIX @ ''success''\<rparr>"
    by (simp only: cmd_done_def ChatCmdHandler.simps option.simps HOL.simp_thms)
  with run pats w'(2,3) reload show ?thesis by blast
qed

text \<open>
  C1: The edit command, end to end: a well-formed TGFCMD filter.edit succeeds and what it writes is
  a group whose tables are those of the abstract edit; reading the filters again gives that group
  (unless the text has a size the reader rejects). The number goes through atoi into an unsigned
  variable, so a negative one counts as past the end.
\<close>

theorem edit_command_refines:
  assumes "data_ok (ce_user e) (cs_world c)" and "toml_conforms (ce_toml e)"
    and "load_group e (cs_world c) = Ok g" and "group_storable (ce_eng e) g"
    and "filters g \<noteq> []" and "length (filters g) < 2 ^ 32"
    and "chunk_word w" and "atoi (c_str w) \<noteq> 0" and "storable v"
    and "is_pattern_accept (regex_of (ce_eng e) v)"
  shows "\<exists>h c' g'.
    new_ChatCmdHandler e ChatCmdEditFilter (edit_command ad w p v) c = Ok (h, c') \<and> cmd_done h \<and>
    pats g' = abs_edit (\<lambda>v. is_pattern_accept (regex_of (ce_eng e) v))
      ((if ad then EdAdd else EdDel) (atoi (c_str w)) p v) (pats g) \<and>
    get_filters (ce_user e) (cs_world c') = Ok (readable (as_fsdata g')) \<and>
    (unreadable_size (length (as_fsdata g')) \<or>
       res_map filters (load_group e (cs_world c')) = Ok (filters g'))"
proof -
  obtain h w' g' where run: "new_ChatCmdHandler e ChatCmdEditFilter (edit_command ad w p v) c = Ok (h, c\<lparr>cs_world := w'\<rparr>)"
    and rest: "cmd_done h"
      "pats g' = abs_edit (\<lambda>v. is_pattern_accept (regex_of (ce_eng e) v))
        ((if ad then EdAdd else EdDel) (atoi (c_str w)) p v) (pats g)"
      "get_filters (ce_user e) w' = Ok (readable (as_fsdata g'))"
      "unreadable_size (length (as_fsdata g')) \<or> res_map filters (load_group e w') = Ok (filters g')"
    using edit_command_run [OF assms] by blast
  have cw: "cs_world (c\<lparr>cs_world := w'\<rparr>) = w'" by simp
  show ?thesis
    by (rule exI [of _ h], rule exI [of _ "c\<lparr>cs_world := w'\<rparr>"], rule exI [of _ g'])
      (simp only: run rest(1-3) cw rest(4) HOL.simp_thms)
qed

text \<open>
  The insert command without its number, which the source starts with the largest unsigned
  value to mean the end of the list, never inserts: the value read back as a signed index is
  negative, so the command reports a failure and leaves the filters alone.
\<close>

theorem insert_needs_number:
  assumes "load_group e (cs_world c) = Ok g" and "set blanks \<subseteq> {CHR '' ''}"
  shows "\<exists>h. new_ChatCmdHandler e ChatCmdInsertFilter (CHATCMD_INSF @ blanks) c = Ok (h, c) \<and>
           \<not> cmd_done h"
proof -
  have ipt: "erase_front (CHATCMD_INSF @ blanks) (find_first_not_of '' '' (CHATCMD_INSF @ blanks) 0) =
      CHATCMD_INSF @ blanks"
    by (simp add: erase_leading CHATCMD_INSF_def)
  have pre: "str_find CHATCMD_INSF (CHATCMD_INSF @ blanks) = Some 0"
    by (simp only: str_find_zero_iff prefix_def) blast
  have ins: "ins_filter (ce_eng e) (- 1) None g = Ok (False, - 1, g)"
    by (simp add: ins_filter_def)
  have "handle_insfilter e (CHATCMD_INSF @ blanks) c =
      bad_rtn CHATCMD_INSF_USAGE (CHATCMD_INSF @ blanks) ''failed'' c"
  proof (cases "find_first_of '' '' (CHATCMD_INSF @ blanks) 0")
    case None
    then show ?thesis
      by (simp only: handle_insfilter_def Let_def pre assms(1) res_bind.simps ins prod.case
          option.case HOL.simp_thms if_False)
  next
    case (Some k)
    have "k \<ge> length CHATCMD_INSF"
    proof (rule ccontr)
      assume "\<not> k \<ge> length CHATCMD_INSF"
      then have "(CHATCMD_INSF @ blanks) ! k \<in> set CHATCMD_INSF" by (simp add: nth_append)
      moreover have "(CHATCMD_INSF @ blanks) ! k = CHR '' ''"
        using Some by (auto simp: find_first_of_def dest: find_idx_SomeD)
      ultimately show False by (simp add: CHATCMD_INSF_def)
    qed
    then have "\<forall>x \<in> set (drop k (CHATCMD_INSF @ blanks)). x = CHR '' ''"
      using assms(2) by (auto dest: in_set_dropD)
    then have "next_chunk (CHATCMD_INSF @ blanks) k = None"
      by (simp add: next_chunk_def find_first_not_of_def find_idx_None_iff [THEN iffD2])
    with Some show ?thesis
      by (simp only: handle_insfilter_def Let_def pre assms(1) res_bind.simps ins prod.case
          option.case HOL.simp_thms if_False)
  qed
  then show ?thesis
    by (simp add: new_ChatCmdHandler_def ipt bad_rtn_def cmd_done_def)
qed

text \<open>A directory of empty files, and an engine that compiles every pattern.\<close>

definition blank_world :: world where
  "blank_world = \<lparr>files = (\<lambda>_. Some []), dirs = {}, deny = (\<lambda>_. False), flock_ok = True, held = {}\<rparr>"

definition demo_env :: "string cmd_env" where
  "demo_env =
     \<lparr>ce_eng = \<lparr>regcomp = \<lambda>p. (0, p), regexec = \<lambda>r s. 1, regerror = \<lambda>_. []\<rparr>, ce_toml = toml_read, ce_i0 = 0,
      ce_user = \<lparr>lck_droot = None, lck_filters = Some ''l'', data_root_majv = ''/h''\<rparr>\<rparr>"

definition demo_cstate :: cstate where
  "demo_cstate = \<lparr>cs_world = blank_world, cs_pause = False\<rparr>"

lemma demo_facts:
  "data_ok (ce_user demo_env) blank_world"
  "load_group demo_env blank_world = Ok \<lparr>i_prev_visited = 0, filters = [empty_filter]\<rparr>"
proof -
  show ok: "data_ok (ce_user demo_env) blank_world"
    by (simp add: data_ok_def data_paths_def demo_env_def blank_world_def)
  have "get_filters (ce_user demo_env) blank_world = Ok []"
    using filters_file.get_rd [of blank_world "ce_user demo_env" "[]"]
    by (simp add: blank_world_def demo_env_def)
  moreover have "toml_read [] = None" by (simp add: toml_read_def read_doc.simps)
  ultimately show "load_group demo_env blank_world = Ok \<lparr>i_prev_visited = 0, filters = [empty_filter]\<rparr>"
    by (simp add: load_group_def new_FilterGroupToml_def new_FilterToml_def find_or_def
        demo_env_def empty_filter_def)
qed

lemma commands_contract_witness:
  "\<exists>h c'. new_ChatCmdHandler demo_env ChatCmdPause ''pause'' demo_cstate = Ok (h, c') \<and> cs_pause c'"
  using commands_contract [of demo_env demo_cstate ChatCmdPause "''pause''"] demo_facts
  by (auto simp: cmd_ready_def demo_cstate_def group_ok_def filter_ok_empty)

lemma edit_command_witness:
  "\<exists>h c' (g' :: string FilterGroup). new_ChatCmdHandler demo_env ChatCmdEditFilter ''filter.edit 1 titles add \"a b\"'' demo_cstate =
       Ok (h, c') \<and> cmd_done h \<and> pats g' = [(\<lambda>_. [])(FilterPropertyTitles := [''a b''])] \<and>
     get_filters (ce_user demo_env) (cs_world c') = Ok (readable (as_fsdata g'))"
proof -
  let ?g = "\<lparr>i_prev_visited = 0, filters = [empty_filter]\<rparr> :: string FilterGroup"
  have n: "atoi (c_str ''1'') = 1"
    by (simp add: atoi_def c_str_def strtol10_def is_space_def is_digit_def digit_of_def clamp_long_def)
  have ipt: "edit_command True ''1'' FilterPropertyTitles ''a b'' = ''filter.edit 1 titles add \"a b\"''"
    by (simp add: edit_command_def CHATCMD_EDITF_def)
  have acc: "is_pattern_accept (regex_of (ce_eng demo_env) ''a b'')"
    by (simp add: is_pattern_accept_def regex_of_def demo_env_def)
  then have tables: "abs_edit (\<lambda>v. is_pattern_accept (regex_of (ce_eng demo_env) v))
      ((if True then EdAdd else EdDel) 1 FilterPropertyTitles ''a b'') (pats ?g) =
      [(\<lambda>_. [])(FilterPropertyTitles := [''a b''])]"
    by (simp add: pats_def abs_add_def Let_def)
  have "\<exists>h c' g'. new_ChatCmdHandler demo_env ChatCmdEditFilter
      (edit_command True ''1'' FilterPropertyTitles ''a b'') demo_cstate = Ok (h, c') \<and> cmd_done h \<and>
    pats g' = abs_edit (\<lambda>v. is_pattern_accept (regex_of (ce_eng demo_env) v))
      ((if True then EdAdd else EdDel) (atoi (c_str ''1'')) FilterPropertyTitles ''a b'') (pats ?g) \<and>
    get_filters (ce_user demo_env) (cs_world c') = Ok (readable (as_fsdata g')) \<and>
    (unreadable_size (length (as_fsdata g')) \<or>
       res_map filters (load_group demo_env (cs_world c')) = Ok (filters g'))"
    using demo_facts
    by (intro edit_command_refines acc)
      (simp_all only: n demo_cstate_def cstate.simps, simp_all add: demo_env_def toml_read_conforms
        group_storable_def filter_regexes_def empty_filter_def chunk_word_def storable_def
        plain_char_def bytes_of_def utf8_valid_ascii)
  then show ?thesis unfolding n ipt tables by blast
qed

lemma insert_needs_number_witness:
  "\<exists>h. new_ChatCmdHandler demo_env ChatCmdInsertFilter (CHATCMD_INSF @ ''  '') demo_cstate = Ok (h, demo_cstate) \<and>
     \<not> cmd_done h"
  using insert_needs_number [of demo_env demo_cstate _ "''  ''"] demo_facts by (simp add: demo_cstate_def)

end
