(* ===== verification/TdColl.thy ===== *)
theory TdColl
  imports ChatCmd Decor "HOL-Library.Multiset"
begin

text \<open>
  \<open>src/src/td_coll.hh\<close> and \<open>td_coll.cc\<close>: the collector, a client of the Telegram
  library. TDLib itself is third-party code: its objects are the datatypes below with the fields the
  source reads, its requests are recorded in the order they are sent, and its responses are
  arguments. Log calls are left out (theory \<open>Log\<close> models them), and so are the null objects
  that the library never delivers.
\<close>

section \<open>Objects of the library\<close>

datatype TextEntityType =
    textEntityTypeBold
  | textEntityTypeBlockQuote
  | textEntityTypeCode
  | textEntityTypeExpandableBlockQuote
  | textEntityTypeTextUrl string

text \<open>
  Offset and length in UTF-16 units; the library keeps them in 32 bits, which is the same number for
  texts below two to the 31 units.
\<close>

record textEntity =
  e_offset :: nat
  e_length :: nat
  e_type :: TextEntityType

datatype AuthorizationState =
    authorizationStateReady
  | authorizationStateWaitTdlibParameters
  | authorizationStateWaitPhoneNumber
  | authorizationStateWaitCode
  | authorizationStateWaitPassword
  | authorizationStateClosing
  | authorizationStateClosed
  | otherAuthorizationState i32

record user =
  first_name :: string
  last_name :: string
  editable_username :: "string option"

datatype MessageSender =
    messageSenderUser i64
  | messageSenderChat i64

datatype MessageContent =
    messageText string
  | messagePhoto string
  | messageAnimatedEmoji string
  | messageSticker string
  | otherContent i32

record message =
  msg_chat_id :: i64
  msg_sender_id :: MessageSender
  msg_content :: MessageContent
  msg_date :: i32

datatype Object =
    objChat i64
  | objCreatedBasicGroupChat i64
  | objMessage
  | objOk
  | objError i32 string
  | updateAuthorizationState AuthorizationState
  | updateNewChat i64 string
  | updateChatTitle i64 string
  | updateUser i64 user
  | updateNewMessage message
  | otherObject i32

datatype Function =
    getOption string
  | setOption string bool
  | createNewSupergroupChat string string
  | createNewBasicGroupChat string
  | sendMessage i64 string "textEntity list"
  | setTdlibParameters string i32 string string string string
  | setAuthenticationPhoneNumber string
  | checkAuthenticationCode string
  | checkAuthenticationPassword string
  | closeRequest

text \<open>\<open>tapi_stringify\<close> of \<open>td_comp.cc\<close>, used in log lines.\<close>

definition stringify_formattedText :: "string \<Rightarrow> string" where
  "stringify_formattedText txt = ''(formattedText,'' @ ''s:'' @ txt @ '','' @ '')''"

definition stringify_message :: "i64 \<Rightarrow> i64 \<Rightarrow> string" where
  "stringify_message i chat =
     ''(message,'' @ ''id:'' @ show_int (sint i) @ '','' @ ''chat_id:'' @ show_int (sint chat) @ '','' @
     ''content:'' @ '','' @ '')''"

section \<open>Decorations of replies\<close>

text \<open>The comparison of \<open>seq[i + k]\<close> with the code units of an ASCII label, bound included.\<close>

definition label_at :: "u16 list \<Rightarrow> nat \<Rightarrow> string \<Rightarrow> bool" where
  "label_at seq i lbl =
     (i + (length lbl - 1) < length seq \<and>
      take (length lbl) (drop i seq) = map (\<lambda>c. of_char c) lbl)"

definition bold_at :: "u16 list \<Rightarrow> nat \<Rightarrow> string \<Rightarrow> textEntity list" where
  "bold_at seq i lbl =
     (if label_at seq i lbl
      then [\<lparr>e_offset = i, e_length = length lbl - 1 + 1, e_type = textEntityTypeBold\<rparr>] else [])"

definition filters_at :: "u16 list \<Rightarrow> nat \<Rightarrow> textEntity list" where
  "filters_at seq i =
     bold_at seq i ''Titles <titles>'' @
     bold_at seq i ''Senders <senders>'' @
     bold_at seq i ''Keywords <keywords>'' @
     bold_at seq i ''NO Titles <no-titles>'' @
     bold_at seq i ''NO Senders <no-senders>'' @
     bold_at seq i ''NO Keywords <no-keywords>''"

definition extra_decoration_filters :: "textEntity list \<Rightarrow> string \<Rightarrow> textEntity list" where
  "extra_decoration_filters deco_list msgtxt =
     (let seq = get_c16_seq msgtxt
      in deco_list @ concat (map (filters_at seq) [0..<length seq]))"

text \<open>\<open>size_t (-1)\<close>.\<close>

definition NPOS :: nat where
  "NPOS = 2 ^ 64 - 1"

record help_state =
  ent_foldblk :: bool
  ent_codeblk :: bool
  ent_urlblk :: bool
  lasti_foldblk :: nat
  lasti_codeblk :: nat
  lasti_urlblk :: nat
  h_deco :: "textEntity list"

definition help_init :: "textEntity list \<Rightarrow> help_state" where
  "help_init deco_list =
     \<lparr>ent_foldblk = False, ent_codeblk = False, ent_urlblk = False, lasti_foldblk = NPOS,
      lasti_codeblk = NPOS, lasti_urlblk = NPOS, h_deco = deco_list\<rparr>"

definition open_fold :: "u16 list \<Rightarrow> nat \<Rightarrow> string \<Rightarrow> help_state \<Rightarrow> help_state" where
  "open_fold seq i lbl s =
     (if \<not> ent_foldblk s \<and> label_at seq i lbl
      then s\<lparr>ent_foldblk := True, lasti_foldblk := i, h_deco := h_deco s @ bold_at seq i lbl\<rparr> else s)"

definition close_fold :: "u16 list \<Rightarrow> nat \<Rightarrow> help_state \<Rightarrow> help_state" where
  "close_fold seq i s =
     (if ent_foldblk s \<and> label_at seq i ''<CLICK-TO-HIDE>''
      then s\<lparr>h_deco := h_deco s @
               [\<lparr>e_offset = lasti_foldblk s, e_length = size_t_sub (i + 14) (lasti_foldblk s) + 1,
                 e_type = textEntityTypeExpandableBlockQuote\<rparr>],
             ent_foldblk := False, lasti_foldblk := NPOS\<rparr>
      else s)"

definition mark_code :: "u16 list \<Rightarrow> nat \<Rightarrow> help_state \<Rightarrow> help_state" where
  "mark_code seq i s =
     (if seq ! i = 0x2002 then
        (let s' = (if ent_codeblk s \<and> lasti_codeblk s > 0
                   then s\<lparr>h_deco := h_deco s @
                            [\<lparr>e_offset = lasti_codeblk s, e_length = size_t_sub i (lasti_codeblk s) + 1,
                              e_type = textEntityTypeCode\<rparr>],
                          lasti_codeblk := NPOS\<rparr>
                   else s\<lparr>lasti_codeblk := i\<rparr>)
         in s'\<lparr>ent_codeblk := \<not> ent_codeblk s\<rparr>)
      else s)"

definition mark_url :: "u16 list \<Rightarrow> nat \<Rightarrow> help_state \<Rightarrow> help_state" where
  "mark_url seq i s =
     (if seq ! i = 0x2003 then
        (let s' = (if ent_urlblk s \<and> lasti_urlblk s > 0
                   then s\<lparr>h_deco := h_deco s @
                            [\<lparr>e_offset = lasti_urlblk s, e_length = size_t_sub i (lasti_urlblk s) + 1,
                              e_type = textEntityTypeTextUrl ''https://github.com/micl2e2/tg-focus''\<rparr>],
                          lasti_urlblk := NPOS\<rparr>
                   else s\<lparr>lasti_urlblk := i\<rparr>)
         in s'\<lparr>ent_urlblk := \<not> ent_urlblk s\<rparr>)
      else s)"

definition help_step :: "u16 list \<Rightarrow> nat \<Rightarrow> help_state \<Rightarrow> help_state" where
  "help_step seq i s =
     mark_url seq i (mark_code seq i (close_fold seq i
       (open_fold seq i ''MORE EXAMPLES :'' (open_fold seq i ''EXAMPLES :'' s))))"

definition extra_decoration_help :: "textEntity list \<Rightarrow> string \<Rightarrow> textEntity list" where
  "extra_decoration_help deco_list msgtxt =
     (let seq = get_c16_seq msgtxt
      in h_deco (fold (help_step seq) [0..<length seq] (help_init deco_list)))"

section \<open>State\<close>

text \<open>What a stored callback does with the response; a callback closes over the values listed.\<close>

datatype callback =
    CbSupergroup
  | CbBasicGroup
  | CbCollect TgMsg
  | CbReply
  | CbAuth u64

record TdCollector =
  c_sent :: "(u64 \<times> Function) list"
  c_auth_stat :: "AuthorizationState option"
  c_curr_qry_id :: u64
  c_auth_qry_id :: u64
  c_cb :: "u64 \<rightharpoonup> callback"
  c_users :: "i64 \<rightharpoonup> user"
  c_chat_titles :: "i64 \<rightharpoonup> string"
  tried_c_tgfchat :: bool
  is_auth :: bool

definition new_TdCollector :: TdCollector where
  "new_TdCollector =
     \<lparr>c_sent = [], c_auth_stat = None, c_curr_qry_id = 0, c_auth_qry_id = 0, c_cb = Map.empty,
      c_users = Map.empty, c_chat_titles = Map.empty, tried_c_tgfchat = False, is_auth = False\<rparr>"

text \<open>
  The daemon's globals the collector works on: the data directory and the pause flag, the queue of
  messages with its counters, the collector. \<open>g_exit\<close> is the status of \<open>exit\<close>.
\<close>

record gstate =
  g_cmd :: cstate
  g_coll :: TdCollector
  g_mq :: "TgMsg list"
  g_msg_total :: u32
  g_msg_coll :: u32
  g_exit :: "int option"

record 're coll_env =
  co_cmd :: "'re cmd_env"
  co_tz :: timezone
  co_lang :: Lang
  co_ndebug :: bool

abbreviation g_world :: "gstate \<Rightarrow> world" where
  "g_world g \<equiv> cs_world (g_cmd g)"

definition set_world :: "world \<Rightarrow> gstate \<Rightarrow> gstate" where
  "set_world w g = g\<lparr>g_cmd := (g_cmd g)\<lparr>cs_world := w\<rparr>\<rparr>"

definition on_coll :: "(TdCollector \<Rightarrow> TdCollector) \<Rightarrow> gstate \<Rightarrow> gstate" where
  "on_coll f g = g\<lparr>g_coll := f (g_coll g)\<rparr>"

definition TF_DEV :: "bool \<Rightarrow> string" where
  "TF_DEV ndebug = (if ndebug then ''TG-FOCUS'' else ''TG-FOCUS_DEV'')"

definition TF_COLL_CHAT_TITLE :: "bool \<Rightarrow> string" where
  "TF_COLL_CHAT_TITLE ndebug = (if ndebug then ''TG-FOCUS'' else ''TG-FOCUS_DEV'')"

definition TF_VER :: string where
  "TF_VER = ''3.1''"

section \<open>Requests and responses\<close>

definition next_query_id :: "TdCollector \<Rightarrow> u64 \<times> TdCollector" where
  "next_query_id c = (c_curr_qry_id c + 1, c\<lparr>c_curr_qry_id := c_curr_qry_id c + 1\<rparr>)"

text \<open>\<open>emplace\<close> keeps an entry that is there already.\<close>

definition send_query :: "Function \<Rightarrow> callback option \<Rightarrow> TdCollector \<Rightarrow> TdCollector" where
  "send_query tdfn cbfn c =
     (let (query_id, c1) = next_query_id c;
          c2 = (case cbfn of
                  None \<Rightarrow> c1
                | Some cb \<Rightarrow>
                    c1\<lparr>c_cb := (if c_cb c1 query_id = None then (c_cb c1)(query_id \<mapsto> cb) else c_cb c1)\<rparr>)
      in c2\<lparr>c_sent := c_sent c2 @ [(query_id, tdfn)]\<rparr>)"

definition td_init :: "TdCollector \<Rightarrow> TdCollector" where
  "td_init c =
     send_query (setOption ''use_storage_optimizer'' True) None
       (send_query (getOption ''version'') None c)"

definition try_create_tgfchat :: "'re coll_env \<Rightarrow> gstate \<Rightarrow> gstate res" where
  "try_create_tgfchat e g =
     (if \<not> is_auth (g_coll g) then Ok g
      else res_bind (is_tgfid_valid (ce_user (co_cmd e)) (g_world g)) (\<lambda>valid.
        if valid \<or> tried_c_tgfchat (g_coll g) then Ok g
        else
          (let g1 = on_coll (\<lambda>c. c\<lparr>tried_c_tgfchat := True\<rparr>) g
           in res_map (\<lambda>super.
                on_coll
                  (if super
                   then send_query (createNewSupergroupChat (TF_COLL_CHAT_TITLE (co_ndebug e))
                          ''TG-FOCUS helps you focus!'') (Some CbSupergroup)
                   else send_query (createNewBasicGroupChat (TF_COLL_CHAT_TITLE (co_ndebug e)))
                          (Some CbBasicGroup)) g1)
                (is_super_tgfid (ce_user (co_cmd e)) (g_world g1)))))"

text \<open>The early return of the source makes the decoration empty.\<close>

definition decorate_msg :: "string \<Rightarrow> textEntity list" where
  "decorate_msg msg = []"

definition collect_msg :: "'re coll_env \<Rightarrow> TgMsg \<Rightarrow> gstate \<Rightarrow> gstate res" where
  "collect_msg e msg g =
     (let tfmsg_str = to_locale_string (co_lang e) msg
      in res_map (\<lambda>tgfid.
           on_coll (send_query (sendMessage tgfid tfmsg_str (decorate_msg tfmsg_str)) (Some (CbCollect msg))) g)
         (get_tgfid (ce_user (co_cmd e)) (g_world g)))"

definition store_tgfid :: "'re coll_env \<Rightarrow> i64 \<Rightarrow> gstate \<Rightarrow> gstate res" where
  "store_tgfid e i g =
     res_map (\<lambda>w. set_world w g) (set_tgfid (ce_user (co_cmd e)) i (g_world g))"

text \<open>The bodies of the callbacks.\<close>

fun run_callback :: "'re coll_env \<Rightarrow> callback \<Rightarrow> Object \<Rightarrow> gstate \<Rightarrow> gstate res" where
  "run_callback e CbSupergroup ob g =
     (case ob of objChat i \<Rightarrow> store_tgfid e i g | _ \<Rightarrow> Ok g)"
| "run_callback e CbBasicGroup ob g =
     (case ob of objCreatedBasicGroupChat i \<Rightarrow> store_tgfid e i g | _ \<Rightarrow> Ok g)"
| "run_callback e (CbCollect msg) ob g =
     (case ob of
        objMessage \<Rightarrow> Ok (g\<lparr>g_msg_coll := g_msg_coll g + 1\<rparr>)
      | objError code txt \<Rightarrow>
          (if str_find ''Have no write access to the chat'' txt \<noteq> None \<or>
              str_find ''Chat not found'' txt \<noteq> None
           then store_tgfid e (- 1) (on_coll (\<lambda>c. c\<lparr>tried_c_tgfchat := False\<rparr>) g)
           else Ok g)
      | _ \<Rightarrow> Ok g)"
| "run_callback e CbReply ob g = Ok g"
| "run_callback e (CbAuth i) ob g = Ok g"

definition get_user_name :: "i64 \<Rightarrow> TdCollector \<Rightarrow> string" where
  "get_user_name user_id c =
     (case c_users c user_id of
        None \<Rightarrow> ''unknown user''
      | Some u \<Rightarrow>
          first_name u @ '' '' @ last_name u @
          (case editable_username u of None \<Rightarrow> [] | Some n \<Rightarrow> '' @'' @ n))"

definition get_chat_title :: "i64 \<Rightarrow> TdCollector \<Rightarrow> string" where
  "get_chat_title chat_id c =
     (case c_chat_titles c chat_id of None \<Rightarrow> ''unknown chat'' | Some t \<Rightarrow> t)"

section \<open>Commands from the TG-FOCUS chat\<close>

text \<open>The chain of \<open>else if\<close> that picks the handler; the order decides.\<close>

definition pick_cmd :: "string \<Rightarrow> ChatCmdType option" where
  "pick_cmd txt =
     (if str_find CHATCMD_PAUSE txt \<noteq> None then Some ChatCmdPause
      else if str_find CHATCMD_RESUME txt \<noteq> None then Some ChatCmdResume
      else if str_find CHATCMD_FILTERS txt \<noteq> None then Some ChatCmdFilters
      else if str_find CHATCMD_RAWFILTERS txt \<noteq> None then Some ChatCmdRawFilters
      else if str_find CHATCMD_EDITF txt \<noteq> None then Some ChatCmdEditFilter
      else if str_find CHATCMD_INSF txt \<noteq> None then Some ChatCmdInsertFilter
      else if str_find CHATCMD_RMF txt \<noteq> None then Some ChatCmdRemoveFilter
      else if str_find CHATCMD_HELP txt \<noteq> None then Some ChatCmdHelp
      else None)"

text \<open>The pair of \<open>did_what\<close> and \<open>aux_msg\<close>; a missing \<open>did_what\<close> would throw.\<close>

definition run_tgfcmd :: "'re coll_env \<Rightarrow> string \<Rightarrow> gstate \<Rightarrow> ((string \<times> string) \<times> gstate) res" where
  "run_tgfcmd e incom_txt g =
     (case pick_cmd incom_txt of
        None \<Rightarrow> Ok ((incom_txt, CHATCMD_RPLY_PREFIX @ ''not supported''), g)
      | Some t \<Rightarrow>
          res_bind (new_ChatCmdHandler (co_cmd e) t incom_txt (g_cmd g)) (\<lambda>(h, c').
            case h_did_what h of
              None \<Rightarrow> Undef
            | Some did \<Rightarrow> Ok ((did, h_aux_msg h), g\<lparr>g_cmd := c'\<rparr>)))"

definition reply_entities :: "string \<Rightarrow> string \<Rightarrow> string \<Rightarrow> textEntity list" where
  "reply_entities incom_txt did_what aux_msg =
     (let utf16len_didwhat = get_c16_len did_what;
          d0 = [\<lparr>e_offset = 0, e_length = utf16len_didwhat, e_type = textEntityTypeBlockQuote\<rparr>,
                \<lparr>e_offset = utf16len_didwhat, e_length = CHATCMD_RPLY_PREFIX_N_CP,
                 e_type = textEntityTypeBold\<rparr>];
          d1 = (if str_find CHATCMD_FILTERS incom_txt \<noteq> None
                then extra_decoration_filters d0 (did_what @ aux_msg) else d0)
      in if str_find CHATCMD_HELP incom_txt \<noteq> None
         then extra_decoration_help d1 (did_what @ aux_msg) else d1)"

definition handle_tgfcmd :: "'re coll_env \<Rightarrow> string \<Rightarrow> gstate \<Rightarrow> gstate res" where
  "handle_tgfcmd e incom_txt g =
     res_bind (run_tgfcmd e incom_txt g) (\<lambda>((did_what, aux_msg), g').
     res_map (\<lambda>tgfid.
         on_coll (send_query
           (sendMessage tgfid (did_what @ aux_msg) (reply_entities incom_txt did_what aux_msg))
           (Some CbReply)) g')
       (get_tgfid (ce_user (co_cmd e)) (g_world g')))"

section \<open>Updates\<close>

definition auth_query_callback :: "TdCollector \<Rightarrow> callback" where
  "auth_query_callback c = CbAuth (c_auth_qry_id c)"

definition on_authorization_state_update ::
  "'re coll_env \<Rightarrow> AuthorizationState \<Rightarrow> gstate \<Rightarrow> gstate res" where
  "on_authorization_state_update e st g =
     (let g1 = on_coll (\<lambda>c. c\<lparr>c_auth_qry_id := c_auth_qry_id c + 1\<rparr>) g
      in case st of
           authorizationStateReady \<Rightarrow> Ok (on_coll (\<lambda>c. c\<lparr>is_auth := True\<rparr>) g1)
         | authorizationStateWaitTdlibParameters \<Rightarrow>
             res_bind (get_api_id (ce_user (co_cmd e)) (g_world g1)) (\<lambda>i.
             res_map (\<lambda>h.
                 on_coll (\<lambda>c. send_query
                   (setTdlibParameters (path_tddata (ce_user (co_cmd e))) i h ''en''
                     (TF_DEV (co_ndebug e)) TF_VER)
                   (Some (auth_query_callback c)) c) g1)
               (get_api_hash (ce_user (co_cmd e)) (g_world g1)))
         | authorizationStateWaitPhoneNumber \<Rightarrow> Ok (g1\<lparr>g_exit := Some 2\<rparr>)
         | _ \<Rightarrow> Ok g1)"

text \<open>A text of the TG-FOCUS chat, leading blanks removed, is a command when it starts so.\<close>

definition is_tgfcmd :: "string \<Rightarrow> bool" where
  "is_tgfcmd txt = (length txt > 6 \<and> txt ! 6 = CHR 0x20 \<and> str_find ''TGFCMD'' txt = Some 0)"

definition handle_own_text :: "'re coll_env \<Rightarrow> string \<Rightarrow> gstate \<Rightarrow> gstate res" where
  "handle_own_text e s g =
     (let txt = erase_front s (find_first_not_of '' '' s 0)
      in if is_tgfcmd txt then handle_tgfcmd e (drop 6 txt) g else Ok g)"

definition sender_name_of :: "MessageSender \<Rightarrow> TdCollector \<Rightarrow> string" where
  "sender_name_of sd c =
     (case sd of
        messageSenderUser i \<Rightarrow> get_user_name i c
      | messageSenderChat i \<Rightarrow> get_chat_title i c @ ''(chat)'')"

text \<open>\<open>text += id\<close> appends the character whose code is the low byte of the identifier.\<close>

fun content_text :: "MessageContent \<Rightarrow> string" where
  "content_text (messageText t) = t"
| "content_text (messagePhoto cap) = ''<photo>'' @ ''('' @ cap @ '')''"
| "content_text (messageAnimatedEmoji em) = ''<emoji>'' @ ''('' @ em @ '')''"
| "content_text (messageSticker em) = ''<sticker>'' @ ''('' @ em @ '')''"
| "content_text (otherContent i) = ''ignored message with ID '' @ [char_of_byte (ucast i)]"

text \<open>The map's \<open>operator[]\<close>, which inserts an empty title where there is none.\<close>

definition title_entry :: "i64 \<Rightarrow> TdCollector \<Rightarrow> string \<times> TdCollector" where
  "title_entry i c =
     (case c_chat_titles c i of
        Some t \<Rightarrow> (t, c)
      | None \<Rightarrow> ([], c\<lparr>c_chat_titles := (c_chat_titles c)(i \<mapsto> [])\<rparr>))"

definition process_new_message :: "'re coll_env \<Rightarrow> message \<Rightarrow> gstate \<Rightarrow> gstate res" where
  "process_new_message e m g =
     (let (title, c1) = title_entry (msg_chat_id m) (g_coll g); g1 = g\<lparr>g_coll := c1\<rparr>
      in res_bind (get_tgfid (ce_user (co_cmd e)) (g_world g1)) (\<lambda>latest_tgfid.
           if msg_chat_id m = latest_tgfid then
             (case msg_content m of
                messageText t \<Rightarrow> handle_own_text e t g1
              | _ \<Rightarrow> Ok g1)
           else
             Ok (g1\<lparr>g_mq :=
                       new_TgMsg (co_tz e) title (sender_name_of (msg_sender_id m) c1)
                         (content_text (msg_content m)) (msg_date m) # g_mq g1,
                     g_msg_total := g_msg_total g1 + 1\<rparr>)))"

definition process_update :: "'re coll_env \<Rightarrow> Object \<Rightarrow> gstate \<Rightarrow> gstate res" where
  "process_update e ob g =
     (case ob of
        updateAuthorizationState st \<Rightarrow>
          on_authorization_state_update e st (on_coll (\<lambda>c. c\<lparr>c_auth_stat := Some st\<rparr>) g)
      | updateNewChat i t \<Rightarrow> Ok (on_coll (\<lambda>c. c\<lparr>c_chat_titles := (c_chat_titles c)(i \<mapsto> t)\<rparr>) g)
      | updateChatTitle i t \<Rightarrow> Ok (on_coll (\<lambda>c. c\<lparr>c_chat_titles := (c_chat_titles c)(i \<mapsto> t)\<rparr>) g)
      | updateUser i u \<Rightarrow> Ok (on_coll (\<lambda>c. c\<lparr>c_users := (c_users c)(i \<mapsto> u)\<rparr>) g)
      | updateNewMessage m \<Rightarrow> process_new_message e m g
      | _ \<Rightarrow> Ok g)"

text \<open>
  The callback that is found is run and then erased. None of the callbacks above sends a request, so
  within the worker that runs it the entry is still where it was found.
\<close>

definition process_response :: "'re coll_env \<Rightarrow> u64 \<Rightarrow> Object option \<Rightarrow> gstate \<Rightarrow> gstate res" where
  "process_response e request_id may_ob g =
     (case may_ob of
        None \<Rightarrow> Ok g
      | Some ob \<Rightarrow>
          if request_id = 0 then process_update e ob g
          else case c_cb (g_coll g) request_id of
                 None \<Rightarrow> Ok g
               | Some cb \<Rightarrow>
                   res_map (on_coll (\<lambda>c. c\<lparr>c_cb := (c_cb c)(request_id := None)\<rparr>))
                     (run_callback e cb ob g))"

text \<open>One call of \<open>fetch_updates\<close>; the response is what \<open>receive\<close> returned.\<close>

definition fetch_updates :: "'re coll_env \<Rightarrow> u64 \<times> Object option \<Rightarrow> gstate \<Rightarrow> gstate res" where
  "fetch_updates e response g =
     (case snd response of
        None \<Rightarrow> Ok g
      | Some ob \<Rightarrow> process_response e (fst response) (Some ob) g)"

section \<open>Replies and commands\<close>

text \<open>What a handler claims to have done.\<close>

definition did_ok :: "string \<Rightarrow> (cmd_result \<times> cstate) res \<Rightarrow> bool" where
  "did_ok ipt r =
     (\<forall>succ did aux c'. r = Ok ((succ, did, aux), c') \<longrightarrow>
        did = Some ipt \<or> did = Some (ipt @ '' '') \<or> (\<exists>x. did = Some (CHATCMD_EDITF @ x)))"

lemma did_ok_Ok [intro]: "did_ok ipt (Ok ((succ, Some ipt, aux), c'))"
  and did_ok_bad [intro]: "did_ok ipt (bad_rtn usage ipt aux c)"
  and did_ok_store [intro]: "did_ok ipt (res_map (\<lambda>y. ((fs y, Some ipt, fa y), fc y)) q)"
  and did_ok_edit [intro]:
    "did_ok ipt (res_map (\<lambda>c'. ((succ, Some (CHATCMD_EDITF @ x), aux), c')) r)"
  by (auto simp: did_ok_def bad_rtn_def)

lemma did_ok_bind: "(\<And>x. did_ok ipt (f x)) \<Longrightarrow> did_ok ipt (res_bind r f)"
  by (cases r) (simp_all add: did_ok_def)

lemma did_ok_if: "did_ok ipt x \<Longrightarrow> did_ok ipt y \<Longrightarrow> did_ok ipt (if b then x else y)"
  by simp

lemma did_ok_option: "did_ok ipt x \<Longrightarrow> (\<And>y. did_ok ipt (f y)) \<Longrightarrow> did_ok ipt (case z of None \<Rightarrow> x | Some y \<Rightarrow> f y)"
  by (cases z) simp_all

lemma did_ok_pair: "(\<And>x y. did_ok ipt (f x y)) \<Longrightarrow> did_ok ipt (case z of (x, y) \<Rightarrow> f x y)"
  by (cases z) simp

lemmas did_ok_intros = did_ok_bind did_ok_if did_ok_option did_ok_pair

lemma did_ok_run_edit: "did_ok ipt (run_edit e ipt c w1 w2 w3 w4)"
  unfolding run_edit_def Let_def
  by (intro did_ok_intros did_ok_bad) (simp add: did_ok_edit)

lemma did_ok_dispatch: "did_ok ipt (dispatch_cmd e t ipt c)"
proof (cases t)
  case ChatCmdEditFilter
  have "did_ok ipt (handle_editfilter e ipt c)"
    unfolding handle_editfilter_def Let_def
    by (auto intro!: did_ok_intros did_ok_run_edit split: option.split)
  with ChatCmdEditFilter show ?thesis by simp
next
  case ChatCmdInsertFilter
  have "did_ok ipt (handle_insfilter e ipt c)"
    unfolding handle_insfilter_def Let_def by (intro did_ok_intros did_ok_bad did_ok_store)
  with ChatCmdInsertFilter show ?thesis by simp
next
  case ChatCmdRemoveFilter
  have "did_ok ipt (handle_rmfilter e ipt c)"
    unfolding handle_rmfilter_def Let_def by (intro did_ok_intros did_ok_bad did_ok_store)
  with ChatCmdRemoveFilter show ?thesis by simp
next
  case ChatCmdFilters
  have "did_ok ipt (handle_filters e ipt c)" by (simp only: handle_filters_def did_ok_store)
  with ChatCmdFilters show ?thesis by simp
next
  case ChatCmdRawFilters
  have "did_ok ipt (handle_rawfilters e ipt c)" by (simp only: handle_rawfilters_def did_ok_store)
  with ChatCmdRawFilters show ?thesis by simp
qed (auto simp: handle_pause_def handle_resume_def handle_help_def)


text \<open>How many commands a text of the own chat holds, one inside the reply to the other.\<close>

function cmd_depth :: "string \<Rightarrow> nat" where
  "cmd_depth s =
     (let t = dropWhile (\<lambda>c. c = CHR '' '') s
      in if is_tgfcmd t then Suc (cmd_depth (drop 6 t)) else 0)"
  by pat_completeness auto

termination cmd_depth
proof (relation "measure length", goal_cases)
  case (2 s t)
  then have "6 < length t" by (simp add: is_tgfcmd_def)
  moreover have "length t \<le> length s" using 2(1) by (simp add: length_dropWhile_le)
  ultimately show ?case by simp
qed simp

declare cmd_depth.simps [simp del]

lemma is_tgfcmd_append:
  assumes "z \<noteq> []" and "hd z \<notin> set ''TGFCMD''" and "hd z \<noteq> CHR '' '' \<or> CHR ''.'' \<in> set t"
  shows "is_tgfcmd (t @ z) = is_tgfcmd t"
proof (cases "length t > 6")
  case True
  then have "prefix ''TGFCMD'' (t @ z) = prefix ''TGFCMD'' t"
    by (simp add: prefix_take_iff numeral_2_eq_2)
  with True show ?thesis by (simp add: is_tgfcmd_def str_find_zero_iff nth_append)
next
  case False
  have "\<not> is_tgfcmd (t @ z)"
  proof
    assume "is_tgfcmd (t @ z)"
    then obtain r where r: "t @ z = ''TGFCMD'' @ r" and sp: "(t @ z) ! 6 = CHR '' ''"
      by (auto simp: is_tgfcmd_def str_find_zero_iff prefix_def)
    have at: "(t @ z) ! length t = hd z" using assms(1) by (simp add: nth_append hd_conv_nth)
    show False
    proof (cases "length t = 6")
      case True
      then have "t = take 6 (t @ z)" by simp
      then have "t = ''TGFCMD''" unfolding r by simp
      with True at sp assms(3) show False by simp
    next
      case False
      with \<open>\<not> 6 < length t\<close> have "length t < 6" by simp
      then have "(''TGFCMD'' @ r) ! length t \<in> set ''TGFCMD''"
        by (subst nth_append) (simp del: set_simps)
      with at r assms(2) show False by simp
    qed
  qed
  with False show ?thesis by (simp add: is_tgfcmd_def)
qed

lemma cmd_depth_append:
  assumes "z \<noteq> []" and "hd z \<notin> set ''TGFCMD''"
  shows "hd z \<noteq> CHR '' '' \<or> CHR ''.'' \<in> set s \<Longrightarrow> cmd_depth (s @ z) = cmd_depth s"
proof (induction s rule: cmd_depth.induct)
  case (1 s)
  let ?t = "dropWhile (\<lambda>c. c = CHR '' '') s"
  show ?case
  proof (cases "\<forall>c \<in> set s. c = CHR '' ''")
    case True
    then have "CHR ''.'' \<notin> set s" by blast
    with 1(2) have "hd z \<noteq> CHR '' ''" by blast
    then have "dropWhile (\<lambda>c. c = CHR '' '') (s @ z) = z"
      using True assms(1) dropWhile_append2 [of s "\<lambda>c. c = CHR '' ''" z]
      by (cases z) simp_all
    moreover have "\<not> is_tgfcmd z"
      using is_tgfcmd_append [OF assms, of "[]"] \<open>hd z \<noteq> CHR '' ''\<close> by (simp add: is_tgfcmd_def)
    moreover have "?t = []" using True by simp
    moreover have "\<not> is_tgfcmd []" by (simp add: is_tgfcmd_def)
    ultimately show ?thesis
      by (simp only: cmd_depth.simps [of s] cmd_depth.simps [of "s @ z"] Let_def if_False)
  next
    case False
    then have app: "dropWhile (\<lambda>c. c = CHR '' '') (s @ z) = ?t @ z" by (auto simp: dropWhile_append1)
    have dot: "CHR ''.'' \<in> set s \<longleftrightarrow> CHR ''.'' \<in> set ?t"
    proof -
      have "CHR ''.'' \<notin> set (takeWhile (\<lambda>c. c = CHR '' '') s)" by (auto dest: set_takeWhileD)
      moreover have "set s = set (takeWhile (\<lambda>c. c = CHR '' '') s) \<union> set ?t"
        by (simp only: set_append [symmetric] takeWhile_dropWhile_id)
      ultimately show ?thesis by blast
    qed
    have c: "is_tgfcmd (?t @ z) = is_tgfcmd ?t"
      using is_tgfcmd_append [OF assms] 1(2) dot by blast
    show ?thesis
    proof (cases "is_tgfcmd ?t")
      case True
      then obtain r where r: "?t = ''TGFCMD'' @ r"
        by (auto simp: is_tgfcmd_def str_find_zero_iff prefix_def)
      then have "CHR ''.'' \<in> set ?t \<longleftrightarrow> CHR ''.'' \<in> set (drop 6 ?t)" by simp
      with 1(1) [OF refl True] 1(2) dot have "cmd_depth (drop 6 ?t @ z) = cmd_depth (drop 6 ?t)" by blast
        moreover have "drop 6 (?t @ z) = drop 6 ?t @ z" using r by simp
      ultimately show ?thesis using True c
        by (simp only: cmd_depth.simps [of s] cmd_depth.simps [of "s @ z"] Let_def app if_True)
    next
      case False
      with c show ?thesis
        by (simp only: cmd_depth.simps [of s] cmd_depth.simps [of "s @ z"] Let_def app if_False)
    qed
  qed
qed

lemma cmd_depth_strip: "cmd_depth (dropWhile (\<lambda>c. c = CHR '' '') s) = cmd_depth s"
  by (simp only: cmd_depth.simps [of "dropWhile (\<lambda>c. c = CHR '' '') s"] cmd_depth.simps [of s]
      dropWhile_idem)

lemma cmd_depth_edit: "cmd_depth (CHATCMD_EDITF @ x) = 0"
proof -
  have "\<not> is_tgfcmd (CHATCMD_EDITF @ x)"
    by (simp add: is_tgfcmd_def str_find_zero_iff CHATCMD_EDITF_def)
  moreover have "dropWhile (\<lambda>c. c = CHR '' '') (CHATCMD_EDITF @ x) = CHATCMD_EDITF @ x"
    by (simp add: CHATCMD_EDITF_def)
  ultimately show ?thesis by (simp only: cmd_depth.simps [of "CHATCMD_EDITF @ x"] Let_def if_False)
qed

lemma did_plain:
  assumes "dispatch_cmd e t ipt c = Ok ((succ, did, aux), c')"
    and "t \<notin> {ChatCmdEditFilter, ChatCmdInsertFilter, ChatCmdRemoveFilter}"
  shows "did = Some ipt"
  using assms
  by (cases t)
    (auto simp: handle_pause_def handle_resume_def handle_help_def handle_filters_def
      handle_rawfilters_def)

lemma str_find_set: "str_find p s = Some y \<Longrightarrow> set p \<subseteq> set s"
  using str_contains_iff [of p s] by (auto simp: str_contains_def sublist_def)

lemma pick_cmd_dot:
  "pick_cmd s = Some t \<Longrightarrow> t \<in> {ChatCmdEditFilter, ChatCmdInsertFilter, ChatCmdRemoveFilter} \<Longrightarrow>
     CHR ''.'' \<in> set s"
  by (auto simp: pick_cmd_def CHATCMD_EDITF_def CHATCMD_INSF_def CHATCMD_RMF_def
      dest!: str_find_set split: if_splits)

lemma reply_depth:
  assumes "run_tgfcmd e s g = Ok ((did, aux), g')"
  shows "prefix CHATCMD_RPLY_PREFIX aux \<and> cmd_depth (did @ aux) \<le> cmd_depth s"
proof (cases "pick_cmd s")
  case None
  then have r: "did = s" "aux = CHATCMD_RPLY_PREFIX @ ''not supported''"
    using assms by (simp_all add: run_tgfcmd_def)
  have "cmd_depth (s @ aux) = cmd_depth s"
    by (rule cmd_depth_append) (simp_all add: r CHATCMD_RPLY_PREFIX_def)
  with r show ?thesis by simp
next
  case (Some t)
  let ?ipt = "dropWhile (\<lambda>c. c = CHR '' '') s"
  obtain succ x c' where
    d: "dispatch_cmd (co_cmd e) t ?ipt (g_cmd g) = Ok ((succ, Some did, x), c')"
    and aux: "aux = CHATCMD_RPLY_PREFIX @ x"
    using assms Some
    by (auto simp: run_tgfcmd_def new_ChatCmdHandler_def erase_leading split: option.splits)
  have hd: "z \<noteq> []" "hd z \<notin> set ''TGFCMD''" if "z = aux \<or> z = '' '' @ aux" for z
    using that aux by (auto simp: CHATCMD_RPLY_PREFIX_def)
  consider (plain) "did = ?ipt" | (blank) "did = ?ipt @ '' ''" "did \<noteq> ?ipt" | (edit) y where "did = CHATCMD_EDITF @ y"
    using did_ok_dispatch [of ?ipt "co_cmd e" t "g_cmd g"] d by (auto simp: did_ok_def)
  then have "cmd_depth (did @ aux) \<le> cmd_depth s"
  proof cases
    case plain
    have "cmd_depth (?ipt @ aux) = cmd_depth ?ipt"
      by (rule cmd_depth_append) (simp_all add: aux CHATCMD_RPLY_PREFIX_def)
    with plain show ?thesis by (simp add: cmd_depth_strip)
  next
    case blank
    then have "t \<in> {ChatCmdEditFilter, ChatCmdInsertFilter, ChatCmdRemoveFilter}"
      using did_plain [OF d] by fastforce
    with Some have "CHR ''.'' \<in> set s" by (rule pick_cmd_dot)
    then have "CHR ''.'' \<in> set ?ipt"
      using set_append [of "takeWhile (\<lambda>c. c = CHR '' '') s" ?ipt]
      by (auto dest: set_takeWhileD simp del: set_append)
    then have "cmd_depth (?ipt @ '' '' @ aux) = cmd_depth ?ipt"
      by (intro cmd_depth_append hd) simp_all
    with blank show ?thesis by (simp add: cmd_depth_strip)
  next
    case edit
    then show ?thesis by (simp add: cmd_depth_edit)
  qed
  with aux show ?thesis by simp
qed

lemma run_tgfcmd_ok:
  assumes "cmd_ready (co_cmd e) (g_world g)"
  shows "\<exists>did aux g'. run_tgfcmd e s g = Ok ((did, aux), g') \<and> g_coll g' = g_coll g \<and> g_mq g' = g_mq g \<and>
           data_ok (ce_user (co_cmd e)) (g_world g') \<and>
           get_tgfid (ce_user (co_cmd e)) (g_world g') = get_tgfid (ce_user (co_cmd e)) (g_world g)"
proof (cases "pick_cmd s")
  case None
  then show ?thesis using assms by (simp add: run_tgfcmd_def cmd_ready_def)
next
  case (Some t)
  let ?ipt = "erase_front s (find_first_not_of '' '' s 0)" and ?u = "ce_user (co_cmd e)"
  have ok: "data_ok ?u (g_world g)" using assms by (simp add: cmd_ready_def)
  from outcome_dispatch [OF assms, of t ?ipt] obtain succ did aux c' f where
    d: "dispatch_cmd (co_cmd e) t ?ipt (g_cmd g) = Ok ((succ, Some did, aux), c')"
    and ok': "data_ok ?u (cs_world c')"
    and v: "view ?u (cs_world c') = res_map (s_filters_update f) (view ?u (g_world g))"
    unfolding outcome_ok_def by blast
  have "get_tgfid ?u (cs_world c') = get_tgfid ?u (g_world g)"
    using v ok ok' unfolding view_eq [OF ok] view_eq [OF ok']
    by (auto simp: data_ok_def data_paths_def tgfid.get_rd)
  with d Some ok' show ?thesis by (simp add: run_tgfcmd_def new_ChatCmdHandler_def)
qed

lemma data_ok_tgfid: "data_ok u w \<Longrightarrow> \<exists>i. get_tgfid u w = Ok i"
  by (auto simp: data_ok_def data_paths_def tgfid.get_rd)

lemma own_text_strip: "erase_front s (find_first_not_of '' '' s 0) = dropWhile (\<lambda>c. c = CHR '' '') s"
  by (simp add: erase_leading)

text \<open>
  C18: Replies run down. The program's replies arrive in the TG-FOCUS chat like messages of its user,
  so a reply may itself be a command. A command message causes exactly one request, a reply to the
  same chat, and the reply holds fewer nested commands than the message: the chain of replies that
  one message sets off ends.
\<close>

theorem replies_run_down:
  assumes "cmd_ready (co_cmd e) (g_world g)" and "is_tgfcmd (dropWhile (\<lambda>c. c = CHR '' '') s)"
  shows "\<exists>g' i txt ents. handle_own_text e s g = Ok g' \<and>
           get_tgfid (ce_user (co_cmd e)) (g_world g) = Ok i \<and>
           c_sent (g_coll g') =
             c_sent (g_coll g) @ [(c_curr_qry_id (g_coll g) + 1, sendMessage i txt ents)] \<and>
           cmd_depth txt < cmd_depth s"
proof -
  let ?t = "dropWhile (\<lambda>c. c = CHR '' '') s" and ?u = "ce_user (co_cmd e)"
  obtain did aux g1 where r: "run_tgfcmd e (drop 6 ?t) g = Ok ((did, aux), g1)"
    and coll: "g_coll g1 = g_coll g" and id: "get_tgfid ?u (g_world g1) = get_tgfid ?u (g_world g)"
    using run_tgfcmd_ok [OF assms(1)] by blast
  obtain i where i: "get_tgfid ?u (g_world g) = Ok i"
    using assms(1) data_ok_tgfid by (auto simp: cmd_ready_def)
  have "cmd_depth (did @ aux) \<le> cmd_depth (drop 6 ?t)" using reply_depth [OF r] by simp
  also have "\<dots> < cmd_depth s" using assms(2) by (simp add: cmd_depth.simps [of s] Let_def)
  finally have "cmd_depth (did @ aux) < cmd_depth s" .
  moreover have "handle_own_text e s g = Ok (on_coll (send_query
      (sendMessage i (did @ aux) (reply_entities (drop 6 ?t) did aux)) (Some CbReply)) g1)"
    using assms(2) r i id by (simp add: handle_own_text_def own_text_strip handle_tgfcmd_def)
  ultimately show ?thesis
    using i by (auto simp: on_coll_def send_query_def next_query_id_def Let_def coll)
qed

definition demo_coll_env :: "string coll_env" where
  "demo_coll_env = \<lparr>co_cmd = demo_env, co_tz = (\<lambda>_. (0, ''UTC'')), co_lang = en_US, co_ndebug = True\<rparr>"

definition demo_gstate :: gstate where
  "demo_gstate =
     \<lparr>g_cmd = demo_cstate, g_coll = new_TdCollector, g_mq = [], g_msg_total = 0, g_msg_coll = 0,
      g_exit = None\<rparr>"

lemma demo_ready: "cmd_ready (co_cmd demo_coll_env) (g_world demo_gstate)"
  using demo_facts
  by (simp add: cmd_ready_def demo_coll_env_def demo_gstate_def demo_cstate_def group_ok_def filter_ok_empty)

lemma replies_run_down_witness:
  "\<exists>g' i txt ents. handle_own_text demo_coll_env '' TGFCMD TGFCMD pause'' demo_gstate = Ok g' \<and>
     c_sent (g_coll g') = [(1, sendMessage i txt ents)] \<and> cmd_depth txt < 2"
proof -
  have "cmd_depth '' TGFCMD TGFCMD pause'' = 2"
    by (simp add: cmd_depth.simps is_tgfcmd_def)
  moreover have "is_tgfcmd (dropWhile (\<lambda>c. c = CHR '' '') '' TGFCMD TGFCMD pause'')"
    by (simp add: is_tgfcmd_def)
  moreover have "c_sent (g_coll demo_gstate) = []" "c_curr_qry_id (g_coll demo_gstate) = 0"
    by (simp_all add: demo_gstate_def new_TdCollector_def)
  ultimately show ?thesis
    using replies_run_down [of demo_coll_env demo_gstate "'' TGFCMD TGFCMD pause''", OF demo_ready]
    by auto
qed

section \<open>Requests, responses and callbacks\<close>

text \<open>
  The operations of the collector, in whatever order the workers call them, one after the other. That
  the calls of two workers overlap is the subject of the next section.
\<close>

datatype coll_op =
    OpInit
  | OpFetch u64 "Object option"
  | OpCreate
  | OpCollect TgMsg

fun coll_op_step :: "'re coll_env \<Rightarrow> coll_op \<Rightarrow> gstate \<Rightarrow> gstate res" where
  "coll_op_step e OpInit g = Ok (on_coll td_init g)"
| "coll_op_step e (OpFetch i ob) g = fetch_updates e (i, ob) g"
| "coll_op_step e OpCreate g = try_create_tgfchat e g"
| "coll_op_step e (OpCollect m) g = collect_msg e m g"

text \<open>
  Request identifiers count from one without gaps, and every stored callback belongs to a request
  that was sent.
\<close>

definition ids_ok :: "TdCollector \<Rightarrow> bool" where
  "ids_ok c =
     (map fst (c_sent c) = map word_of_nat [1..<Suc (unat (c_curr_qry_id c))] \<and>
      dom (c_cb c) \<subseteq> fst ` set (c_sent c))"

lemma ids_ok_new: "ids_ok new_TdCollector"
  by (simp add: ids_ok_def new_TdCollector_def)

lemma send_query_simps [simp]:
  "c_curr_qry_id (send_query f cb c) = c_curr_qry_id c + 1"
  "c_sent (send_query f cb c) = c_sent c @ [(c_curr_qry_id c + 1, f)]"
  by (simp_all add: send_query_def next_query_id_def Let_def split: option.split)

lemma unat_next: "w \<noteq> - 1 \<Longrightarrow> unat (w + 1) = Suc (unat w)" for w :: u64
  by (metis Suc_eq_plus1 add.commute add_eq_0_iff unatSuc)

lemma ids_ok_send [wf_intros]:
  assumes "ids_ok c" and "c_curr_qry_id c \<noteq> - 1"
  shows "ids_ok (send_query f cb c)"
proof -
  have u: "unat (c_curr_qry_id c + 1) = Suc (unat (c_curr_qry_id c))"
    using assms(2) by (rule unat_next)
  have "dom (c_cb (send_query f cb c)) \<subseteq> insert (c_curr_qry_id c + 1) (dom (c_cb c))"
    by (auto simp: send_query_def next_query_id_def Let_def split: option.split)
  then have "dom (c_cb (send_query f cb c)) \<subseteq> fst ` set (c_sent (send_query f cb c))"
    using assms(1) by (auto simp: ids_ok_def)
  moreover have "map fst (c_sent (send_query f cb c)) =
      map word_of_nat [1..<Suc (unat (c_curr_qry_id (send_query f cb c)))]"
    using assms(1) by (simp add: ids_ok_def u)
  ultimately show ?thesis by (simp only: ids_ok_def)
qed

lemma ids_ok_frame:
  "ids_ok c \<Longrightarrow> c_sent c' = c_sent c \<Longrightarrow> c_curr_qry_id c' = c_curr_qry_id c \<Longrightarrow>
     dom (c_cb c') \<subseteq> dom (c_cb c) \<Longrightarrow> ids_ok c'"
  by (auto simp: ids_ok_def simp del: upt_Suc)

text \<open>No request and no new callback.\<close>

definition silent :: "TdCollector \<Rightarrow> TdCollector \<Rightarrow> bool" where
  "silent c c' =
     (c_sent c' = c_sent c \<and> c_curr_qry_id c' = c_curr_qry_id c \<and> dom (c_cb c') \<subseteq> dom (c_cb c))"

text \<open>At most one request after silent changes, with no new callback but its own.\<close>

definition speaks :: "TdCollector \<Rightarrow> TdCollector \<Rightarrow> bool" where
  "speaks c c' = (silent c c' \<or> (\<exists>c1 f cb. silent c c1 \<and> silent (send_query f cb c1) c'))"

lemma silent_simps [simp]: "silent c c"
  "silent c (c1\<lparr>c_auth_stat := a\<rparr>) = silent c c1" "silent c (c1\<lparr>c_auth_qry_id := i\<rparr>) = silent c c1"
  "silent c (c1\<lparr>is_auth := b\<rparr>) = silent c c1" "silent c (c1\<lparr>tried_c_tgfchat := b\<rparr>) = silent c c1"
  "silent c (c1\<lparr>c_chat_titles := t\<rparr>) = silent c c1" "silent c (c1\<lparr>c_users := us\<rparr>) = silent c c1"
  by (simp_all add: silent_def)

lemma speaks_silent: "silent c c' \<Longrightarrow> speaks c c'"
  by (simp add: speaks_def)

lemma speaks_send: "silent c c1 \<Longrightarrow> speaks c (send_query f cb c1)"
  unfolding speaks_def using silent_simps(1) by blast

lemma silent_trans: "silent a b \<Longrightarrow> silent b c \<Longrightarrow> silent a c"
  unfolding silent_def by (metis subset_trans)

lemma speaks_trans: "silent a b \<Longrightarrow> speaks b c \<Longrightarrow> speaks a c"
  unfolding speaks_def by (blast intro: silent_trans)

lemma speaks_after_auth: "speaks (c\<lparr>c_auth_stat := x\<rparr>) c' \<Longrightarrow> speaks c c'"
  by (rule speaks_trans [of _ "c\<lparr>c_auth_stat := x\<rparr>"]) simp

lemma speaks_delete: "speaks a b \<Longrightarrow> speaks a (b\<lparr>c_cb := (c_cb b)(i := None)\<rparr>)"
proof -
  have "silent b (b\<lparr>c_cb := (c_cb b)(i := None)\<rparr>)" by (auto simp: silent_def)
  then show "speaks a b \<Longrightarrow> speaks a (b\<lparr>c_cb := (c_cb b)(i := None)\<rparr>)"
    unfolding speaks_def by (blast intro: silent_trans)
qed

lemma run_tgfcmd_coll: "run_tgfcmd e s g = Ok (x, g') \<Longrightarrow> g_coll g' = g_coll g"
  by (auto simp: run_tgfcmd_def split: option.splits)

lemma own_text_speaks: "handle_own_text e s g = Ok g' \<Longrightarrow> speaks (g_coll g) (g_coll g')"
  by (auto simp: handle_own_text_def handle_tgfcmd_def Let_def on_coll_def speaks_send speaks_silent
      dest!: run_tgfcmd_coll split: if_splits)

lemma title_entry_silent: "title_entry i c = (t, c') \<Longrightarrow> silent c c'"
  by (auto simp: title_entry_def split: option.splits)

lemma new_message_speaks: "process_new_message e m g = Ok g' \<Longrightarrow> speaks (g_coll g) (g_coll g')"
  by (auto simp: process_new_message_def Let_def speaks_silent
      dest!: own_text_speaks dest: title_entry_silent speaks_trans [OF title_entry_silent]
      split: if_splits prod.splits MessageContent.splits)

lemma store_tgfid_coll [simp]: "store_tgfid e i g = Ok g' \<Longrightarrow> g_coll g' = g_coll g"
  by (auto simp: store_tgfid_def set_world_def)

lemma callback_silent: "run_callback e cb ob g = Ok g' \<Longrightarrow> silent (g_coll g) (g_coll g')"
  by (cases cb) (auto simp: on_coll_def dest!: store_tgfid_coll split: Object.splits if_splits)

lemma auth_update_speaks:
  "on_authorization_state_update e st g = Ok g' \<Longrightarrow> speaks (g_coll g) (g_coll g')"
  by (auto simp: on_authorization_state_update_def Let_def on_coll_def speaks_silent speaks_send
      split: AuthorizationState.splits)

lemma speaks_ids:
  assumes "speaks c c'" and "ids_ok c" and "c_curr_qry_id c \<noteq> - 1"
  shows "ids_ok c' \<and> unat (c_curr_qry_id c') \<le> Suc (unat (c_curr_qry_id c))"
  using assms(1) unfolding speaks_def
proof (elim disjE exE conjE)
  assume "silent c c'"
  with assms(2) show ?thesis by (auto simp: silent_def intro: ids_ok_frame)
next
  fix c1 f cb
  assume s: "silent c c1" "silent (send_query f cb c1) c'"
  then have "ids_ok c1" "c_curr_qry_id c1 = c_curr_qry_id c"
    using assms(2) by (auto simp: silent_def intro: ids_ok_frame)
  then have "ids_ok (send_query f cb c1)" using assms(3) by (simp add: ids_ok_send)
  moreover have "unat (c_curr_qry_id c + 1) \<le> Suc (unat (c_curr_qry_id c))"
    using unat_next [OF assms(3)] by simp
  ultimately show ?thesis
    using s \<open>c_curr_qry_id c1 = c_curr_qry_id c\<close> by (auto simp: silent_def intro: ids_ok_frame)
qed

lemma coll_op_speaks:
  assumes "coll_op_step e op g = Ok g'" and "op \<noteq> OpInit"
  shows "speaks (g_coll g) (g_coll g')"
proof (cases op)
  case (OpFetch i ob)
  show ?thesis
  proof (cases ob)
    case (Some x)
    show ?thesis
    proof (cases "i = 0")
      case True
      with OpFetch Some assms(1) show ?thesis
        by (auto simp: fetch_updates_def process_response_def process_update_def on_coll_def
            speaks_silent dest!: auth_update_speaks new_message_speaks dest: speaks_after_auth
            split: Object.splits)
    next
      case False
      with OpFetch Some assms(1) show ?thesis
        by (auto simp: fetch_updates_def process_response_def on_coll_def speaks_silent
            dest!: callback_silent [THEN speaks_silent] intro: speaks_delete split: option.splits)
    qed
  qed (use OpFetch assms(1) in \<open>simp add: fetch_updates_def speaks_silent\<close>)
next
  case OpCreate
  with assms(1) show ?thesis
    by (auto simp: try_create_tgfchat_def Let_def on_coll_def speaks_silent speaks_send split: if_splits)
next
  case (OpCollect m)
  with assms(1) show ?thesis by (auto simp: collect_msg_def Let_def on_coll_def speaks_send)
qed (use assms(2) in simp)

lemma coll_op_ids:
  assumes "coll_op_step e op g = Ok g'" and "ids_ok (g_coll g)"
    and "unat (c_curr_qry_id (g_coll g)) + 2 < 2 ^ 64"
  shows "ids_ok (g_coll g') \<and> unat (c_curr_qry_id (g_coll g')) \<le> unat (c_curr_qry_id (g_coll g)) + 2"
proof -
  let ?q = "c_curr_qry_id (g_coll g)"
  have m: "unat (- 1 :: u64) = 2 ^ 64 - 1" by (simp add: unsigned_minus_1_eq_mask mask_eq_exp_minus_1)
  have ne: "?q \<noteq> - 1" using assms(3) m by auto
  show ?thesis
  proof (cases "op = OpInit")
    case True
    have u: "unat (?q + 1) = Suc (unat ?q)" using ne by (rule unat_next)
    have ne2: "?q + 1 \<noteq> - 1"
    proof
      assume "?q + 1 = - 1"
      then have "Suc (unat ?q) = 2 ^ 64 - 1" using u m by (simp only:)
      with assms(3) show False by simp
    qed
    have "unat (?q + 1 + 1) = Suc (Suc (unat ?q))" using unat_next [OF ne2] u by simp
    moreover have "ids_ok (td_init (g_coll g))"
      using assms(2) ne ne2 by (simp add: td_init_def ids_ok_send)
    ultimately show ?thesis using True assms(1) by (auto simp: on_coll_def td_init_def)
  next
    case False
    from speaks_ids [OF coll_op_speaks [OF assms(1) False] assms(2) ne] show ?thesis by simp
  qed
qed

text \<open>
  The states that operations bring the collector to when none of them overlaps another: nothing in the
  code sees to that, since producer and consumer call them without a lock.
\<close>

inductive coll_reach :: "'re coll_env \<Rightarrow> gstate \<Rightarrow> nat \<Rightarrow> gstate \<Rightarrow> bool" for e where
  coll_start: "coll_reach e g 0 g"
| coll_next: "coll_reach e g n g' \<Longrightarrow> coll_op_step e op g' = Ok g'' \<Longrightarrow> coll_reach e g (Suc n) g''"

lemma coll_reach_ids:
  assumes "coll_reach e g n g'" and "g_coll g = new_TdCollector" and "n < 2 ^ 63 - 1"
  shows "ids_ok (g_coll g') \<and> unat (c_curr_qry_id (g_coll g')) \<le> 2 * n"
  using assms
proof (induction rule: coll_reach.induct)
  case (coll_start g)
  then show ?case by (simp add: ids_ok_new) (simp add: new_TdCollector_def)
next
  case (coll_next g n g' op g'')
  from coll_next.IH coll_next.prems
  have "ids_ok (g_coll g')" "unat (c_curr_qry_id (g_coll g')) \<le> 2 * n" by simp_all
  with coll_op_ids [OF coll_next.hyps(2)] coll_next.prems show ?case by auto
qed

text \<open>The fresh identifiers of a state reached without overlapping calls.\<close>

lemma coll_reach_fresh:
  assumes "coll_reach e g n g'" and "g_coll g = new_TdCollector" and "n < 2 ^ 63 - 1"
  defines "c \<equiv> g_coll g'"
  shows "map fst (c_sent c) = map word_of_nat [1..<Suc (length (c_sent c))]"
    and "distinct (map fst (c_sent c))" and "dom (c_cb c) \<subseteq> fst ` set (c_sent c)"
    and "c_cb c (c_curr_qry_id c + 1) = None" and "c_cb c (c_curr_qry_id c + 2) = None"
proof -
  let ?q = "unat (c_curr_qry_id c)"
  have ids: "map fst (c_sent c) = map word_of_nat [1..<Suc ?q]"
    and dom: "dom (c_cb c) \<subseteq> fst ` set (c_sent c)" and le: "?q \<le> 2 * n"
    using coll_reach_ids [OF assms(1-3)] by (simp_all only: ids_ok_def c_def)
  have len: "length (c_sent c) = ?q"
    using arg_cong [OF ids, of length] by simp
  have small: "x < 2 ^ 64" if "x \<in> set [1..<Suc ?q]" for x
    using that unsigned_less [where w = "c_curr_qry_id c" and 'a = nat] by auto
  have "inj_on (word_of_nat :: nat \<Rightarrow> u64) (set [1..<Suc ?q])"
    by (rule inj_onI) (use small in \<open>simp add: word_of_nat_eq_iff take_bit_nat_eq_self del: upt_Suc\<close>)
  then show "distinct (map fst (c_sent c))"
    unfolding ids by (simp only: distinct_map distinct_upt HOL.simp_thms)
  show "map fst (c_sent c) = map word_of_nat [1..<Suc (length (c_sent c))]"
    unfolding len by (rule ids)
  show "dom (c_cb c) \<subseteq> fst ` set (c_sent c)" by (rule dom)
  have unused: "c_cb c w = None" if "unat w > ?q" for w
  proof (rule ccontr)
    assume "c_cb c w \<noteq> None"
    then have "w \<in> set (map fst (c_sent c))" using dom by auto
    then obtain x where x: "w = word_of_nat x" "x \<in> set [1..<Suc ?q]" unfolding ids by auto
    then have "unat w = x" using small by (simp add: unsigned_of_nat take_bit_nat_eq_self)
    with x(2) that show False by auto
  qed
  have m: "unat (- 1 :: u64) = 2 ^ 64 - 1" by (simp add: unsigned_minus_1_eq_mask mask_eq_exp_minus_1)
  have "c_curr_qry_id c \<noteq> - 1" using m le assms(3) by auto
  note n1 = unat_next [OF this]
  have "c_curr_qry_id c + 1 \<noteq> - 1"
  proof
    assume "c_curr_qry_id c + 1 = - 1"
    then have "Suc ?q = 2 ^ 64 - 1" using n1 m by (simp only:)
    with le assms(3) show False by simp
  qed
  from unat_next [OF this] n1 have "unat (c_curr_qry_id c + 2) = Suc (Suc ?q)"
    by (simp add: add.assoc)
  with n1 show "c_cb c (c_curr_qry_id c + 1) = None" "c_cb c (c_curr_qry_id c + 2) = None"
    by (simp_all add: unused)
qed

section \<open>Overlapping calls\<close>

text \<open>
  The producer sends replies and the parameters of the login, the consumer sends what it forwards and
  asks for the chat; both call \<open>send_query\<close>, and no lock is held. One call, access by access: load
  the last identifier, store the next one, enter the callback, send.
\<close>

datatype call_pc = CallLoad | CallStore u64 | CallEnter u64 | CallSend u64 | CallDone u64

fun call_step :: "Function \<times> callback option \<Rightarrow> call_pc \<Rightarrow> TdCollector \<Rightarrow> call_pc \<times> TdCollector" where
  "call_step r CallLoad c = (CallStore (c_curr_qry_id c), c)"
| "call_step r (CallStore v) c = (CallEnter (v + 1), c\<lparr>c_curr_qry_id := v + 1\<rparr>)"
| "call_step r (CallEnter q) c =
     (CallSend q,
      case snd r of
        None \<Rightarrow> c
      | Some cb \<Rightarrow> c\<lparr>c_cb := (if c_cb c q = None then (c_cb c)(q \<mapsto> cb) else c_cb c)\<rparr>)"
| "call_step r (CallSend q) c = (CallDone q, c\<lparr>c_sent := c_sent c @ [(q, fst r)]\<rparr>)"
| "call_step r (CallDone q) c = (CallDone q, c)"

text \<open>Two calls; the schedule says who takes each step, \<open>True\<close> for the first.\<close>

fun calls_run ::
  "Function \<times> callback option \<Rightarrow> Function \<times> callback option \<Rightarrow> bool list \<Rightarrow>
     (call_pc \<times> call_pc) \<times> TdCollector \<Rightarrow> (call_pc \<times> call_pc) \<times> TdCollector" where
  "calls_run r1 r2 [] s = s"
| "calls_run r1 r2 (b # bs) ((x, y), c) =
     calls_run r1 r2 bs
       (if b then (let (x', c') = call_step r1 x c in ((x', y), c'))
        else (let (y', c') = call_step r2 y c in ((x, y'), c')))"

text \<open>The second worker loads the identifier before the first has stored it, or the other way round.\<close>

fun loads_overlap :: "bool list \<Rightarrow> bool" where
  "loads_overlap (a # b # bs) = (a \<noteq> b)"
| "loads_overlap _ = False"

lemma call_alone:
  "calls_run (f, cb) r2 [True, True, True, True] ((CallLoad, y), c) =
     ((CallDone (c_curr_qry_id c + 1), y), send_query f cb c)"
  by (simp add: send_query_def next_query_id_def Let_def split: option.split)

text \<open>Both have loaded the same identifier \<open>v\<close>; \<open>l\<close> are the numbers sent before.\<close>

fun at_number :: "u64 \<Rightarrow> call_pc \<Rightarrow> bool" where
  "at_number v (CallStore w) = (w = v)"
| "at_number v (CallEnter q) = (q = v + 1)"
| "at_number v (CallSend q) = (q = v + 1)"
| "at_number v (CallDone q) = (q = v + 1)"
| "at_number v CallLoad = False"

fun sent_count :: "call_pc \<Rightarrow> nat" where
  "sent_count (CallDone q) = 1"
| "sent_count _ = 0"

fun past_enter :: "call_pc \<Rightarrow> bool" where
  "past_enter (CallSend q) = True"
| "past_enter (CallDone q) = True"
| "past_enter _ = False"

definition same_number ::
  "Function \<times> callback option \<Rightarrow> Function \<times> callback option \<Rightarrow> u64 \<Rightarrow> u64 list \<Rightarrow>
     (call_pc \<times> call_pc) \<times> TdCollector \<Rightarrow> bool" where
  "same_number r1 r2 v l s =
     (case s of ((x, y), c) \<Rightarrow>
        at_number v x \<and> at_number v y \<and>
        (if past_enter x \<or> past_enter y
         then past_enter x \<and> c_cb c (v + 1) = snd r1 \<or> past_enter y \<and> c_cb c (v + 1) = snd r2
         else c_cb c (v + 1) = None) \<and>
        map fst (c_sent c) = l @ replicate (sent_count x + sent_count y) (v + 1))"

lemma same_number_run:
  assumes "same_number r1 r2 v l s"
  shows "same_number r1 r2 v l (calls_run r1 r2 sched s)"
  using assms
proof (induction r1 r2 sched s rule: calls_run.induct)
  case (2 r1 r2 b bs x y c)
  have "same_number r1 r2 v l (if b then (let (x', c') = call_step r1 x c in ((x', y), c'))
        else (let (y', c') = call_step r2 y c in ((x, y'), c')))"
    using 2(2)
    by (cases b; cases x; cases y)
      (auto simp: same_number_def replicate_append_same split: option.splits)
  from 2(1) [OF this] show ?case by simp
qed simp

text \<open>The first has stored \<open>v + 1\<close> before the second loads, which will store \<open>v + 2\<close>.\<close>

definition own_numbers ::
  "Function \<times> callback option \<Rightarrow> Function \<times> callback option \<Rightarrow> u64 \<Rightarrow> u64 list \<Rightarrow>
     (call_pc \<times> call_pc) \<times> TdCollector \<Rightarrow> bool" where
  "own_numbers r1 r2 v l s =
     (case s of ((x, y), c) \<Rightarrow>
        at_number v x \<and> (\<forall>w. x \<noteq> CallStore w) \<and> (y = CallLoad \<or> at_number (v + 1) y) \<and>
        (y = CallLoad \<longrightarrow> c_curr_qry_id c = v + 1) \<and>
        c_cb c (v + 1) = (if past_enter x then snd r1 else None) \<and>
        c_cb c (v + 2) = (if past_enter y then snd r2 else None) \<and>
        mset (map fst (c_sent c)) =
          mset l + replicate_mset (sent_count x) (v + 1) + replicate_mset (sent_count y) (v + 2))"

lemma own_numbers_run:
  assumes "own_numbers r1 r2 v l s"
  shows "own_numbers r1 r2 v l (calls_run r1 r2 sched s)"
  using assms
proof (induction r1 r2 sched s rule: calls_run.induct)
  case (2 r1 r2 b bs x y c)
  have "own_numbers r1 r2 v l (if b then (let (x', c') = call_step r1 x c in ((x', y), c'))
        else (let (y', c') = call_step r2 y c in ((x, y'), c')))"
    using 2(2)
    by (cases b; cases x; cases y)
      (auto simp: own_numbers_def add.assoc split: option.splits)
  from 2(1) [OF this] show ?case by simp
qed simp

lemma calls_run_swap:
  "calls_run r1 r2 sched ((x, y), c) =
     (case calls_run r2 r1 (map Not sched) ((y, x), c) of ((y', x'), c') \<Rightarrow> ((x', y'), c'))"
  by (induction sched arbitrary: x y c) (auto simp: case_prod_beta Let_def)

lemma first_ahead:
  assumes "calls_run r1 r2 (True # True # bs) ((CallLoad, CallLoad), c) = ((CallDone i, CallDone j), c')"
    and "c_cb c (c_curr_qry_id c + 1) = None" and "c_cb c (c_curr_qry_id c + 2) = None"
  defines "v \<equiv> c_curr_qry_id c"
  shows "i = v + 1 \<and> j = v + 2 \<and> c_cb c' i = snd r1 \<and> c_cb c' j = snd r2 \<and>
    mset (map fst (c_sent c')) = mset (map fst (c_sent c)) + {#i, j#}"
proof -
  have "own_numbers r1 r2 v (map fst (c_sent c)) ((CallEnter (v + 1), CallLoad), c\<lparr>c_curr_qry_id := v + 1\<rparr>)"
    using assms(2,3) by (simp add: own_numbers_def v_def)
  from own_numbers_run [OF this, of bs] show ?thesis
    using assms(1) by (simp add: own_numbers_def v_def add.assoc)
qed

lemma both_loaded:
  assumes "calls_run r1 r2 (a # b # bs) ((CallLoad, CallLoad), c) = ((CallDone i, CallDone j), c')"
    and "a \<noteq> b" and "c_cb c (c_curr_qry_id c + 1) = None"
  shows "i = c_curr_qry_id c + 1 \<and> j = i \<and> c_cb c' i \<in> {snd r1, snd r2} \<and>
    map fst (c_sent c') = map fst (c_sent c) @ [i, i]"
proof -
  let ?v = "c_curr_qry_id c"
  have "same_number r1 r2 ?v (map fst (c_sent c)) ((CallStore ?v, CallStore ?v), c)"
    using assms(3) by (simp add: same_number_def)
  from same_number_run [OF this, of bs] show ?thesis
    using assms(1,2) by (cases a) (auto simp: same_number_def eval_nat_numeral)
qed

lemma two_calls:
  assumes "calls_run r1 r2 sched ((CallLoad, CallLoad), c) = ((CallDone i, CallDone j), c')"
    and "c_cb c (c_curr_qry_id c + 1) = None" and "c_cb c (c_curr_qry_id c + 2) = None"
  shows "if loads_overlap sched
         then i = c_curr_qry_id c + 1 \<and> j = i \<and> c_cb c' i \<in> {snd r1, snd r2} \<and>
              map fst (c_sent c') = map fst (c_sent c) @ [i, i]
         else {i, j} = {c_curr_qry_id c + 1, c_curr_qry_id c + 2} \<and> i \<noteq> j \<and>
              c_cb c' i = snd r1 \<and> c_cb c' j = snd r2 \<and>
              mset (map fst (c_sent c')) = mset (map fst (c_sent c)) + {#i, j#}"
proof -
  have "calls_run r1 r2 [] ((CallLoad, CallLoad), c) \<noteq> ((CallDone i, CallDone j), c')"
    "calls_run r1 r2 [a] ((CallLoad, CallLoad), c) \<noteq> ((CallDone i, CallDone j), c')" for a
    by simp_all
  then obtain a b bs where sched: "sched = a # b # bs"
    using assms(1) by (metis loads_overlap.cases)
  show ?thesis
  proof (cases "a = b")
    case False
    then have ov: "loads_overlap sched" by (simp add: sched)
    show ?thesis
      unfolding if_P [OF ov] by (rule both_loaded [OF assms(1) [unfolded sched] False assms(2)])
  next
    case same: True
    show ?thesis
    proof (cases a)
      case True
      with first_ahead [of r1 r2 bs c i j c'] assms sched same show ?thesis by auto
    next
      case False
      then have "calls_run r2 r1 (True # True # map Not bs) ((CallLoad, CallLoad), c) = ((CallDone j, CallDone i), c')"
        using assms(1) same unfolding sched
        by (subst (asm) calls_run_swap) (auto split: prod.splits)
      from first_ahead [OF this assms(2,3)] show ?thesis using sched same by auto
    qed
  qed
qed



section \<open>What enters the queue\<close>

text \<open>
  C27: Forwarded messages do not come back. A new message enters the queue, in front and with the
  fields the update carries, exactly when it is from another chat than the TG-FOCUS chat; a message
  of the TG-FOCUS chat, which is where everything is forwarded to, never does, whatever it says.
\<close>

theorem intake_skips_own_chat:
  assumes "cmd_ready (co_cmd e) (g_world g)"
  shows "\<exists>g' i. process_update e (updateNewMessage m) g = Ok g' \<and>
           get_tgfid (ce_user (co_cmd e)) (g_world g) = Ok i \<and>
           g_mq g' =
             (if msg_chat_id m = i then g_mq g
              else new_TgMsg (co_tz e) (case c_chat_titles (g_coll g) (msg_chat_id m) of None \<Rightarrow> [] | Some t \<Rightarrow> t)
                     (sender_name_of (msg_sender_id m) (snd (title_entry (msg_chat_id m) (g_coll g))))
                     (content_text (msg_content m)) (msg_date m) # g_mq g) \<and>
           g_msg_total g' = (if msg_chat_id m = i then g_msg_total g else g_msg_total g + 1)"
proof -
  let ?u = "ce_user (co_cmd e)"
  obtain title c1 where te: "title_entry (msg_chat_id m) (g_coll g) = (title, c1)"
    by (cases "title_entry (msg_chat_id m) (g_coll g)")
  obtain i where i: "get_tgfid ?u (g_world g) = Ok i"
    using assms data_ok_tgfid by (auto simp: cmd_ready_def)
  let ?g1 = "g\<lparr>g_coll := c1\<rparr>"
  have ready: "cmd_ready (co_cmd e) (g_world ?g1)" using assms by simp
  have own: "\<exists>g'. handle_own_text e t ?g1 = Ok g' \<and> g_mq g' = g_mq g \<and> g_msg_total g' = g_msg_total g" for t
  proof -
    obtain did aux g2 where r: "run_tgfcmd e (drop 6 (dropWhile (\<lambda>c. c = CHR '' '') t)) ?g1 = Ok ((did, aux), g2)"
      and q: "g_mq g2 = g_mq ?g1" "get_tgfid ?u (g_world g2) = get_tgfid ?u (g_world ?g1)"
      using run_tgfcmd_ok [OF ready] by blast
    have "g_msg_total g2 = g_msg_total ?g1"
      using r by (auto simp: run_tgfcmd_def split: option.splits)
    with r q i show ?thesis
      by (auto simp: handle_own_text_def own_text_strip handle_tgfcmd_def on_coll_def Let_def)
  qed
  show ?thesis
  proof (cases "msg_chat_id m = i")
    case True
    then show ?thesis
      using own i by (cases "msg_content m") (auto simp: process_update_def process_new_message_def te)
  next
    case False
    with te i show ?thesis
      by (auto simp: process_update_def process_new_message_def title_entry_def split: option.splits)
  qed
qed

lemma demo_tgfid: "get_tgfid (ce_user (co_cmd demo_coll_env)) (g_world demo_gstate) = Ok 0"
proof -
  have "un_le64 [] = 0" by (simp add: un_le64_def Let_def eval_nat_numeral)
  then show ?thesis
    by (simp add: demo_coll_env_def demo_gstate_def demo_cstate_def demo_env_def blank_world_def tgfid.get_rd)
qed

lemma intake_skips_own_chat_witness:
  "\<exists>g'. process_update demo_coll_env (updateNewMessage
       \<lparr>msg_chat_id = 5, msg_sender_id = messageSenderChat 5, msg_content = messageText ''hi'', msg_date = 0\<rparr>)
       demo_gstate = Ok g' \<and> g_msg_total g' = 1 \<and> length (g_mq g') = 1"
  using intake_skips_own_chat [of demo_coll_env demo_gstate
      "\<lparr>msg_chat_id = 5, msg_sender_id = messageSenderChat 5, msg_content = messageText ''hi'', msg_date = 0\<rparr>",
      OF demo_ready]
  by (auto simp: demo_tgfid) (simp_all add: demo_gstate_def)

section \<open>Decorated ranges of a reply\<close>

definition inside :: "nat \<Rightarrow> textEntity \<Rightarrow> bool" where
  "inside n en = (e_offset en + e_length en \<le> n)"

lemma bold_at_inside: "lbl \<noteq> [] \<Longrightarrow> list_all (inside (length seq)) (bold_at seq i lbl)"
  by (auto simp: bold_at_def label_at_def inside_def)

lemma filters_entities_inside:
  "list_all (inside (length (get_c16_seq txt))) d \<Longrightarrow>
     list_all (inside (length (get_c16_seq txt))) (extra_decoration_filters d txt)"
proof -
  let ?seq = "get_c16_seq txt"
  have "list_all (inside (length ?seq)) (filters_at ?seq i)" for i
    by (simp add: filters_at_def bold_at_inside)
  then show "list_all (inside (length ?seq)) d \<Longrightarrow>
      list_all (inside (length ?seq)) (extra_decoration_filters d txt)"
    by (simp add: extra_decoration_filters_def Let_def) (auto simp: list_all_iff)
qed

text \<open>The open blocks of the scan start before the current unit.\<close>

definition help_ok :: "nat \<Rightarrow> nat \<Rightarrow> help_state \<Rightarrow> bool" where
  "help_ok n i s =
     (list_all (inside n) (h_deco s) \<and>
      (\<not> ent_foldblk s \<or> lasti_foldblk s < i) \<and> (\<not> ent_codeblk s \<or> lasti_codeblk s < i) \<and>
      (\<not> ent_urlblk s \<or> lasti_urlblk s < i))"

lemma help_ok_steps:
  assumes "i < length seq" and "length seq < 2 ^ 64"
  shows "help_ok (length seq) (Suc i) s \<Longrightarrow> lbl \<noteq> [] \<Longrightarrow> help_ok (length seq) (Suc i) (open_fold seq i lbl s)"
    and "help_ok (length seq) (Suc i) s \<Longrightarrow> help_ok (length seq) (Suc i) (close_fold seq i s)"
    and "help_ok (length seq) (Suc i) s \<Longrightarrow> help_ok (length seq) (Suc i) (mark_code seq i s)"
    and "help_ok (length seq) (Suc i) s \<Longrightarrow> help_ok (length seq) (Suc i) (mark_url seq i s)"
proof -
  have sub: "size_t_sub k l = k - l" if "l \<le> k" "k < length seq" for k l
    using that assms(2) by (intro size_t_sub_eq) simp_all
  show "help_ok (length seq) (Suc i) s \<Longrightarrow> lbl \<noteq> [] \<Longrightarrow> help_ok (length seq) (Suc i) (open_fold seq i lbl s)"
    by (auto simp: help_ok_def open_fold_def bold_at_inside)
  show "help_ok (length seq) (Suc i) s \<Longrightarrow> help_ok (length seq) (Suc i) (close_fold seq i s)"
    by (auto simp: help_ok_def close_fold_def label_at_def inside_def sub)
  show "help_ok (length seq) (Suc i) s \<Longrightarrow> help_ok (length seq) (Suc i) (mark_code seq i s)"
    using assms(1) by (auto simp: help_ok_def mark_code_def inside_def sub less_Suc_eq_le)
  show "help_ok (length seq) (Suc i) s \<Longrightarrow> help_ok (length seq) (Suc i) (mark_url seq i s)"
    using assms(1) by (auto simp: help_ok_def mark_url_def inside_def sub less_Suc_eq_le)
qed

lemma help_entities_inside:
  assumes "list_all (inside (length (get_c16_seq txt))) d" and "length (get_c16_seq txt) < 2 ^ 64"
  shows "list_all (inside (length (get_c16_seq txt))) (extra_decoration_help d txt)"
proof -
  let ?seq = "get_c16_seq txt"
  have "k \<le> length ?seq \<Longrightarrow> help_ok (length ?seq) k (fold (help_step ?seq) [0..<k] (help_init d))" for k
  proof (induction k)
    case 0
    show ?case using assms(1) by (simp add: help_ok_def help_init_def)
  next
    case (Suc k)
    then have "help_ok (length ?seq) (Suc k) (fold (help_step ?seq) [0..<k] (help_init d))"
      by (auto simp: help_ok_def)
    moreover have "k < length ?seq" using Suc.prems by simp
    ultimately have "help_ok (length ?seq) (Suc k)
        (help_step ?seq k (fold (help_step ?seq) [0..<k] (help_init d)))"
      by (simp only: help_step_def) (intro help_ok_steps assms(2); simp)
    then show ?case by simp
  qed
  from this [of "length ?seq"] show ?thesis
    by (simp add: extra_decoration_help_def Let_def help_ok_def)
qed

lemma extra_decoration_filters_prefix: "prefix d (extra_decoration_filters d txt)"
  by (simp add: extra_decoration_filters_def Let_def)

lemma help_parts_prefix:
  "prefix (h_deco s) (h_deco (open_fold seq i lbl s))" "prefix (h_deco s) (h_deco (close_fold seq i s))"
  "prefix (h_deco s) (h_deco (mark_code seq i s))" "prefix (h_deco s) (h_deco (mark_url seq i s))"
  by (simp_all add: open_fold_def close_fold_def mark_code_def mark_url_def Let_def)

lemma help_step_prefix: "prefix (h_deco s) (h_deco (help_step seq i s))"
  unfolding help_step_def by (meson help_parts_prefix prefix_order.trans)

lemma extra_decoration_help_prefix: "prefix d (extra_decoration_help d txt)"
proof -
  have "prefix (h_deco s) (h_deco (fold (help_step seq) ks s))" for seq ks s
  proof (induction ks arbitrary: s)
    case (Cons i ks)
    from Cons.IH [of "help_step seq i s"] help_step_prefix [of s seq i] show ?case
      by (auto intro: prefix_order.trans)
  qed simp
  from this [of "help_init d"] show ?thesis
    by (simp add: extra_decoration_help_def Let_def) (simp add: help_init_def)
qed

definition prefix_units :: "u16 list" where
  "prefix_units = [0x3018, 0x20, 0x54, 0x47, 0x46, 0x43, 0x4D, 0x44, 0x20, 0x3019]"

lemma prefix_text:
  "CHATCMD_RPLY_PREFIX = utf8_str [0x3018, 0x20, 0x54, 0x47, 0x46, 0x43, 0x4D, 0x44, 0x20, 0x3019]"
  by (simp add: CHATCMD_RPLY_PREFIX_def utf8_str_def utf8_enc_def char_of_def bit_0)

lemma prefix_seq: "get_c16_seq (CHATCMD_RPLY_PREFIX @ x) = prefix_units @ get_c16_seq x"
  unfolding prefix_text
  by (subst get_c16_seq_append) (simp_all add: is_scalar_def utf16_units_def utf16_enc_def prefix_units_def)

text \<open>
  C36: The marks of a reply. When what was done is well-formed UTF-8 of at most 1024 bytes, the quoted
  part of the reply is exactly the code units of what was done, the ten bold units after it are the
  reply mark, and no range that the decorations of the filters and of the help text add leaves the
  text.
\<close>

theorem reply_marks:
  assumes "list_all is_scalar cps" and "length (utf8_str cps) \<le> 1024" and "length x < 2 ^ 63"
  shows "let did = utf8_str cps; aux = CHATCMD_RPLY_PREFIX @ x; seq = get_c16_seq (did @ aux);
             ents = reply_entities ipt did aux
         in map e_type (take 2 ents) = [textEntityTypeBlockQuote, textEntityTypeBold] \<and>
            map (\<lambda>en. take (e_length en) (drop (e_offset en) seq)) (take 2 ents) =
              [utf16_units cps, prefix_units] \<and>
            list_all (inside (length seq)) ents"
proof -
  let ?did = "utf8_str cps" and ?aux = "CHATCMD_RPLY_PREFIX @ x"
  let ?seq = "get_c16_seq (?did @ ?aux)" and ?n = "length (utf16_units cps)"
  have seq: "?seq = utf16_units cps @ prefix_units @ get_c16_seq x"
    using get_c16_seq_append [OF assms(1), of ?aux] prefix_seq [of x] by simp
  have n: "get_c16_len ?did = ?n"
    using get_c16_len_eq [OF assms(2)] get_c16_seq_utf8 [OF assms(1)] by simp
  let ?d0 = "[\<lparr>e_offset = 0, e_length = ?n, e_type = textEntityTypeBlockQuote\<rparr>,
      \<lparr>e_offset = ?n, e_length = CHATCMD_RPLY_PREFIX_N_CP, e_type = textEntityTypeBold\<rparr>]"
  let ?ents = "reply_entities ipt ?did ?aux"
  have len: "length prefix_units = CHATCMD_RPLY_PREFIX_N_CP"
    by (simp add: prefix_units_def CHATCMD_RPLY_PREFIX_N_CP_def)
  have in0: "list_all (inside (length ?seq)) ?d0" using len by (simp add: inside_def seq)
  have "length ?seq \<le> length (?did @ ?aux)"
    using c16_loop_bound [of "bytes_of (?did @ ?aux)" None] by (simp add: get_c16_seq_eq)
  then have small: "length ?seq < 2 ^ 64" using assms(2,3) by (simp add: CHATCMD_RPLY_PREFIX_def)
  let ?d1 = "if str_find CHATCMD_FILTERS ipt \<noteq> None
      then extra_decoration_filters ?d0 (?did @ ?aux) else ?d0"
  have ents: "?ents = (if str_find CHATCMD_HELP ipt \<noteq> None
      then extra_decoration_help ?d1 (?did @ ?aux) else ?d1)"
    by (simp only: reply_entities_def n Let_def)
  have p1: "prefix ?d0 ?d1" and i1: "list_all (inside (length ?seq)) ?d1"
    using extra_decoration_filters_prefix filters_entities_inside [OF in0] in0 by (simp_all only: split: if_split) simp_all
  have "prefix ?d0 ?ents"
    unfolding ents using p1 prefix_order.trans [OF p1 extra_decoration_help_prefix] by presburger
  then have "take 2 ?ents = ?d0" by (simp add: prefix_take_iff numeral_2_eq_2)
  moreover have "list_all (inside (length ?seq)) ?ents"
    unfolding ents using i1 help_entities_inside [OF i1 small] by presburger
  ultimately show ?thesis using len by (simp add: Let_def seq)
qed

lemma reply_marks_witness:
  "let ents = reply_entities '' pause'' ''pause'' (CHATCMD_RPLY_PREFIX @ ''success'')
   in map (\<lambda>en. take (e_length en) (drop (e_offset en)
          (get_c16_seq (''pause'' @ CHATCMD_RPLY_PREFIX @ ''success'')))) (take 2 ents) =
        [[0x70, 0x61, 0x75, 0x73, 0x65], prefix_units]"
proof -
  have "utf8_str [0x70, 0x61, 0x75, 0x73, 0x65] = ''pause''"
    by (simp add: utf8_str_def utf8_enc_def char_of_def bit_0)
  then show ?thesis
    using reply_marks [of "[0x70, 0x61, 0x75, 0x73, 0x65]" "''success''" "'' pause''"]
    by (simp add: is_scalar_def utf16_units_def utf16_enc_def Let_def)
qed

end
