(* ===== verification/Pipeline.thy ===== *)
theory Pipeline
  imports TdColl
begin

text \<open>
  The three workers around the collector, \<open>src/src/worker/coll_producer.cc\<close>,
  \<open>coll_consumer.cc\<close> and \<open>coll_switcher.cc\<close>: the producer fetches updates into the
  queue, the switcher flips \<open>do_csm_mq\<close> when there is something to consume, the consumer
  empties the queue through the filters. A program counter says where a worker stands, and a worker
  that waits has no step. A step takes a worker past its next access of \<open>do_csm_mq\<close>, the pause flag
  or the queue; a stop flag, which is only ever raised while the workers run, is read together with
  what is done when it is up or down. The producer handles one response, and the consumer one message
  or the request for the chat, in one step: that two such calls overlap inside the collector, which
  has no lock of its own, is modelled in \<open>TdColl\<close> (\<open>call_step\<close>), not here. Atomic flags are
  read and written as if the memory were sequentially consistent. Sleeping and log lines are left out.
\<close>

section \<open>State\<close>

datatype ppc = PLoop | PWait | PFetch | PBusy u64 "Object option" | PDone

datatype cpc = CLoop | CWait | CCheck | CLock | CRun "TgMsg list" | CEnd | CDone

datatype spc = SLoop | STest | SBusy | SLock | SCount | SCloseP | SCloseC | SCloseW | SDone

text \<open>
  \<open>p_locked\<close> is \<open>mq_lock\<close> when the consumer holds it; the other workers take and
  release it within one step. The flags \<open>sd_\<close> are \<open>tryshutwk\<close>.
\<close>

record pstate =
  p_g :: gstate
  p_do_csm :: bool
  p_locked :: bool
  p_cnt :: i32
  it_cnt_producer :: u32
  it_cnt_consumer :: u32
  it_cnt_switcher :: u32
  sd_prod :: bool
  sd_prod_succ :: bool
  sd_cons :: bool
  sd_cons_succ :: bool
  sd_sw :: bool
  sd_sw_succ :: bool
  p_ppc :: ppc
  p_cpc :: cpc
  p_spc :: spc

definition start_workers :: "gstate \<Rightarrow> pstate" where
  "start_workers g =
     \<lparr>p_g = g, p_do_csm = False, p_locked = False, p_cnt = 0, it_cnt_producer = 0, it_cnt_consumer = 0,
      it_cnt_switcher = 0, sd_prod = False, sd_prod_succ = False, sd_cons = False,
      sd_cons_succ = False, sd_sw = False, sd_sw_succ = False, p_ppc = PLoop, p_cpc = CLoop,
      p_spc = SLoop\<rparr>"

section \<open>The producer\<close>

text \<open>Only a message of another chat is put into the queue, under the lock.\<close>

definition takes_lock :: "'re coll_env \<Rightarrow> u64 \<Rightarrow> Object option \<Rightarrow> gstate \<Rightarrow> bool" where
  "takes_lock e i ob g =
     (case ob of
        Some (updateNewMessage m) \<Rightarrow>
          i = 0 \<and> get_tgfid (ce_user (co_cmd e)) (g_world g) \<noteq> Ok (msg_chat_id m)
      | _ \<Rightarrow> False)"

text \<open>
  \<open>response\<close> is what \<open>receive\<close> returns if the step asks it. In \<open>PBusy\<close> the response is handled
  as a whole, whatever the consumer does at the time.
\<close>

fun producer_at :: "'re coll_env \<Rightarrow> u64 \<times> Object option \<Rightarrow> ppc \<Rightarrow> pstate \<Rightarrow> pstate res option" where
  "producer_at e response PLoop s =
     (if sd_prod s then Some (Ok (s\<lparr>sd_prod_succ := True, p_ppc := PDone\<rparr>))
      else Some (Ok (s\<lparr>p_ppc := PWait\<rparr>)))"
| "producer_at e response PWait s =
     (if p_do_csm s then None else Some (Ok (s\<lparr>p_ppc := PFetch\<rparr>)))"
| "producer_at e response PFetch s = Some (Ok (s\<lparr>p_ppc := PBusy (fst response) (snd response)\<rparr>))"
| "producer_at e response (PBusy i ob) s =
     (if p_locked s \<and> takes_lock e i ob (p_g s) then None
      else Some (res_map (\<lambda>g. s\<lparr>p_g := g, it_cnt_producer := it_cnt_producer s + 1, p_ppc := PLoop\<rparr>)
             (fetch_updates e (i, ob) (p_g s))))"
| "producer_at e response PDone s = None"

definition producer_step ::
  "'re coll_env \<Rightarrow> u64 \<times> Object option \<Rightarrow> pstate \<Rightarrow> pstate res option" where
  "producer_step e response s = producer_at e response (p_ppc s) s"

section \<open>The consumer\<close>

definition need_collect :: "'re coll_env \<Rightarrow> TgMsg \<Rightarrow> gstate \<Rightarrow> bool res" where
  "need_collect e msg g =
     res_map (\<lambda>tomlstr.
         fst (group_mtch_tgmsg (ce_eng (co_cmd e))
           (new_FilterGroupToml (ce_eng (co_cmd e)) (ce_toml (co_cmd e)) (ce_i0 (co_cmd e)) tomlstr) msg))
       (get_filters (ce_user (co_cmd e)) (g_world g))"

text \<open>One message of the loop; \<open>cnt\<close> is \<open>consume_cnt\<close>.\<close>

definition consume_one :: "'re coll_env \<Rightarrow> TgMsg \<Rightarrow> i32 \<times> gstate \<Rightarrow> (i32 \<times> gstate) res" where
  "consume_one e msg = (\<lambda>(cnt, g).
     if is_from_tgfocus msg then Ok (cnt, g)
     else res_bind (need_collect e msg g) (\<lambda>need.
       if need then res_map (Pair (cnt + 1)) (collect_msg e (set_id (cnt + 1) msg) g)
       else Ok (cnt, g)))"

text \<open>Leaving the loop, by its end or by the shutdown test, empties the queue and unlocks it.\<close>

definition leave_queue :: "pstate \<Rightarrow> pstate" where
  "leave_queue s = s\<lparr>p_g := (p_g s)\<lparr>g_mq := []\<rparr>, p_locked := False, p_cpc := CEnd\<rparr>"

fun consumer_at :: "'re coll_env \<Rightarrow> cpc \<Rightarrow> pstate \<Rightarrow> pstate res option" where
  "consumer_at e CLoop s =
     (if sd_cons s then Some (Ok (s\<lparr>sd_cons_succ := True, p_cpc := CDone\<rparr>))
      else Some (Ok (s\<lparr>p_cpc := CWait\<rparr>)))"
| "consumer_at e CWait s = (if p_do_csm s then Some (Ok (s\<lparr>p_cpc := CCheck\<rparr>)) else None)"
| "consumer_at e CCheck s =
     Some (res_bind (is_tgfid_valid (ce_user (co_cmd e)) (g_world (p_g s))) (\<lambda>isValid.
       if \<not> isValid \<and> \<not> tried_c_tgfchat (g_coll (p_g s)) then
         res_map (\<lambda>g. s\<lparr>p_g := g, p_cpc := CLoop\<rparr>) (try_create_tgfchat e (p_g s))
       else Ok (s\<lparr>p_cpc := CLock\<rparr>)))"
| "consumer_at e CLock s =
     (if p_locked s then None
      else if length (g_mq (p_g s)) > 0 then
        Some (res_map (\<lambda>isValid.
            if isValid then s\<lparr>p_locked := True, p_cpc := CRun (g_mq (p_g s))\<rparr>
            else s\<lparr>p_cpc := CEnd\<rparr>)
          (is_tgfid_valid (ce_user (co_cmd e)) (g_world (p_g s))))
      else Some (Ok (s\<lparr>p_cpc := CEnd\<rparr>)))"
| "consumer_at e (CRun []) s = Some (Ok (leave_queue s))"
| "consumer_at e (CRun (m # ms)) s =
     (if sd_cons s then Some (Ok (leave_queue s))
      else Some (res_map (\<lambda>(cnt, g). s\<lparr>p_g := g, p_cnt := cnt, p_cpc := CRun ms\<rparr>)
             (consume_one e m (p_cnt s, p_g s))))"
| "consumer_at e CEnd s =
     Some (Ok (s\<lparr>it_cnt_consumer := it_cnt_consumer s + 1, p_do_csm := False, p_cpc := CLoop\<rparr>))"
| "consumer_at e CDone s = None"

definition consumer_step :: "'re coll_env \<Rightarrow> pstate \<Rightarrow> pstate res option" where
  "consumer_step e s = consumer_at e (p_cpc s) s"

section \<open>The switcher\<close>

fun switcher_at :: "spc \<Rightarrow> pstate \<Rightarrow> pstate option" where
  "switcher_at SLoop s =
     Some (if sd_sw s then s\<lparr>sd_prod := True, p_spc := SCloseP\<rparr> else s\<lparr>p_spc := STest\<rparr>)"
| "switcher_at STest s =
     Some (if \<not> cs_pause (g_cmd (p_g s)) then s\<lparr>p_spc := SBusy\<rparr> else s\<lparr>p_spc := SCount\<rparr>)"
| "switcher_at SBusy s =
     Some (if p_do_csm s then s\<lparr>p_spc := SLoop\<rparr> else s\<lparr>p_spc := SLock\<rparr>)"
| "switcher_at SLock s =
     (if p_locked s then None
      else Some (if length (g_mq (p_g s)) > 0 then s\<lparr>p_do_csm := True, p_spc := SCount\<rparr>
                 else s\<lparr>p_spc := SCount\<rparr>))"
| "switcher_at SCount s = Some (s\<lparr>it_cnt_switcher := it_cnt_switcher s + 1, p_spc := SLoop\<rparr>)"
| "switcher_at SCloseP s =
     (if sd_prod_succ s then Some (s\<lparr>p_do_csm := True, p_spc := SCloseC\<rparr>) else None)"
| "switcher_at SCloseC s = Some (s\<lparr>sd_cons := True, p_spc := SCloseW\<rparr>)"
| "switcher_at SCloseW s =
     (if sd_cons_succ s then Some (s\<lparr>sd_sw_succ := True, p_spc := SDone\<rparr>) else None)"
| "switcher_at SDone s = None"

definition switcher_step :: "pstate \<Rightarrow> pstate option" where
  "switcher_step s = switcher_at (p_spc s) s"

section \<open>Interleaving\<close>

inductive pipe_step :: "'re coll_env \<Rightarrow> pstate \<Rightarrow> pstate \<Rightarrow> bool" for e where
  producer: "g_exit (p_g s) = None \<Longrightarrow> producer_step e response s = Some (Ok s') \<Longrightarrow> pipe_step e s s'"
| consumer: "g_exit (p_g s) = None \<Longrightarrow> consumer_step e s = Some (Ok s') \<Longrightarrow> pipe_step e s s'"
| switcher: "g_exit (p_g s) = None \<Longrightarrow> switcher_step s = Some s' \<Longrightarrow> pipe_step e s s'"
| shutdown: "pipe_step e s (s\<lparr>sd_sw := True\<rparr>)"

inductive pipe_reach :: "'re coll_env \<Rightarrow> gstate \<Rightarrow> pstate \<Rightarrow> bool" for e g where
  pipe_start: "pipe_reach e g (start_workers g)"
| pipe_next: "pipe_reach e g s \<Longrightarrow> pipe_step e s s' \<Longrightarrow> pipe_reach e g s'"

section \<open>The handshake\<close>

text \<open>
  The consumer works only while \<open>do_csm_mq\<close> is up; it holds the lock exactly while it walks the
  queue, which then ends with the messages it has left; the stop flags go up in the order producer,
  consumer, and each answer comes from a worker that has ended.
\<close>

fun consumer_ok :: "cpc \<Rightarrow> pstate \<Rightarrow> bool" where
  "consumer_ok CLoop s = (\<not> p_locked s)"
| "consumer_ok CWait s = (\<not> p_locked s)"
| "consumer_ok CCheck s = (\<not> p_locked s \<and> p_do_csm s)"
| "consumer_ok CLock s = (\<not> p_locked s \<and> p_do_csm s)"
| "consumer_ok (CRun ms) s = (p_locked s \<and> p_do_csm s \<and> suffix ms (g_mq (p_g s)))"
| "consumer_ok CEnd s = (\<not> p_locked s \<and> p_do_csm s)"
| "consumer_ok CDone s = (\<not> p_locked s)"

definition flags_ok :: "pstate \<Rightarrow> bool" where
  "flags_ok s =
     (sd_prod_succ s = (p_ppc s = PDone) \<and> sd_cons_succ s = (p_cpc s = CDone) \<and>
      sd_prod s = (p_spc s \<in> {SCloseP, SCloseC, SCloseW, SDone}) \<and>
      sd_cons s = (p_spc s \<in> {SCloseW, SDone}) \<and>
      sd_sw_succ s = (p_spc s = SDone) \<and>
      (p_spc s \<in> {SCloseC, SCloseW, SDone} \<longrightarrow> p_ppc s = PDone) \<and>
      (p_ppc s = PDone \<longrightarrow> sd_prod s) \<and> (p_cpc s = CDone \<longrightarrow> sd_cons s) \<and>
      (p_spc s = SDone \<longrightarrow> p_cpc s = CDone) \<and> (sd_prod s \<longrightarrow> sd_sw s))"

definition pipe_inv :: "pstate \<Rightarrow> bool" where
  "pipe_inv s = (consumer_ok (p_cpc s) s \<and> flags_ok s)"

lemma pipe_inv_start: "pipe_inv (start_workers g)"
  by (simp add: pipe_inv_def start_workers_def flags_ok_def)

lemma consumer_ok_frame:
  "consumer_ok c s \<Longrightarrow> p_locked s' = p_locked s \<Longrightarrow> (p_do_csm s \<longrightarrow> p_do_csm s') \<Longrightarrow>
     (p_locked s \<longrightarrow> g_mq (p_g s') = g_mq (p_g s)) \<Longrightarrow> consumer_ok c s'"
  by (cases c) simp_all

lemma switcher_frame:
  "switcher_step s = Some s' \<Longrightarrow>
     p_cpc s' = p_cpc s \<and> p_locked s' = p_locked s \<and> (p_do_csm s \<longrightarrow> p_do_csm s') \<and> p_g s' = p_g s"
  by (cases "p_spc s") (auto simp: switcher_step_def split: if_splits)

lemma switcher_flags: "switcher_step s = Some s' \<Longrightarrow> flags_ok s \<Longrightarrow> flags_ok s'"
  by (cases "p_spc s") (auto simp: switcher_step_def flags_ok_def split: if_splits)

lemma pipe_inv_switcher: "switcher_step s = Some s' \<Longrightarrow> pipe_inv s \<Longrightarrow> pipe_inv s'"
  using switcher_frame [of s s'] switcher_flags [of s s'] consumer_ok_frame [of "p_cpc s" s s']
  by (simp add: pipe_inv_def)

text \<open>Processing a response leaves the queue alone unless it takes the lock.\<close>

lemma own_text_mq: "handle_own_text e t g = Ok g' \<Longrightarrow> g_mq g' = g_mq g"
  by (auto simp: handle_own_text_def handle_tgfcmd_def run_tgfcmd_def on_coll_def Let_def
      split: if_splits option.splits)

lemma new_message_mq:
  "process_new_message e m g = Ok g' \<Longrightarrow>
     get_tgfid (ce_user (co_cmd e)) (g_world g) = Ok (msg_chat_id m) \<Longrightarrow> g_mq g' = g_mq g"
  by (auto simp: process_new_message_def Let_def dest!: own_text_mq
      split: prod.splits MessageContent.splits if_splits)

lemma callback_mq: "run_callback e cb ob g = Ok g' \<Longrightarrow> g_mq g' = g_mq g"
  by (cases cb) (auto simp: on_coll_def store_tgfid_def set_world_def split: Object.splits if_splits)

lemma auth_update_mq: "on_authorization_state_update e st g = Ok g' \<Longrightarrow> g_mq g' = g_mq g"
  by (auto simp: on_authorization_state_update_def Let_def on_coll_def split: AuthorizationState.splits)

lemma fetch_mq:
  assumes "fetch_updates e (i, ob) g = Ok g'" and "\<not> takes_lock e i ob g"
  shows "g_mq g' = g_mq g"
proof (cases ob)
  case (Some x)
  show ?thesis
  proof (cases "i = 0")
    case True
    with Some assms show ?thesis
      by (cases x) (auto simp: fetch_updates_def process_response_def process_update_def takes_lock_def
          on_coll_def dest!: auth_update_mq new_message_mq)
  next
    case False
    with Some assms(1) show ?thesis
      by (auto simp: fetch_updates_def process_response_def on_coll_def dest!: callback_mq
          split: option.splits)
  qed
qed (use assms(1) in \<open>simp add: fetch_updates_def\<close>)

lemma producer_frame:
  "producer_step e response s = Some (Ok s') \<Longrightarrow>
     p_cpc s' = p_cpc s \<and> p_locked s' = p_locked s \<and> p_do_csm s' = p_do_csm s \<and>
     (p_locked s \<longrightarrow> g_mq (p_g s') = g_mq (p_g s))"
  by (cases "p_ppc s") (auto simp: producer_step_def fetch_mq split: if_splits)

lemma producer_flags: "producer_step e response s = Some (Ok s') \<Longrightarrow> flags_ok s \<Longrightarrow> flags_ok s'"
  by (cases "p_ppc s") (auto simp: producer_step_def flags_ok_def split: if_splits)

lemma pipe_inv_producer: "producer_step e response s = Some (Ok s') \<Longrightarrow> pipe_inv s \<Longrightarrow> pipe_inv s'"
  using producer_frame [of e response s s'] producer_flags [of e response s s']
    consumer_ok_frame [of "p_cpc s" s s']
  by (simp add: pipe_inv_def)

lemma create_mq: "try_create_tgfchat e g = Ok g' \<Longrightarrow> g_mq g' = g_mq g"
  by (auto simp: try_create_tgfchat_def Let_def on_coll_def split: if_splits)

lemma collect_mq: "collect_msg e m g = Ok g' \<Longrightarrow> g_mq g' = g_mq g"
  by (auto simp: collect_msg_def Let_def on_coll_def)

lemma consume_one_mq: "consume_one e m (k, g) = Ok (k', g') \<Longrightarrow> g_mq g' = g_mq g"
  by (auto simp: consume_one_def dest!: collect_mq split: if_splits)

lemma consumer_frame:
  "consumer_step e s = Some (Ok s') \<Longrightarrow>
     p_ppc s' = p_ppc s \<and> p_spc s' = p_spc s \<and> sd_prod s' = sd_prod s \<and>
     sd_prod_succ s' = sd_prod_succ s \<and> sd_cons s' = sd_cons s \<and> sd_sw s' = sd_sw s \<and>
     sd_sw_succ s' = sd_sw_succ s \<and> p_cpc s \<noteq> CDone \<and>
     (if p_cpc s' = CDone then sd_cons_succ s' \<and> sd_cons s else sd_cons_succ s' = sd_cons_succ s)"
  by (cases "(e, p_cpc s, s)" rule: consumer_at.cases)
    (auto simp: consumer_step_def leave_queue_def split: if_splits)

lemma consumer_flags:
  assumes "consumer_step e s = Some (Ok s')" and "flags_ok s"
  shows "flags_ok s'"
proof (cases "p_cpc s' = CDone")
  case True
  with consumer_frame [OF assms(1)] assms(2) show ?thesis
    by (cases "p_spc s") (auto simp: flags_ok_def)
next
  case False
  with consumer_frame [OF assms(1)] assms(2) show ?thesis
    by (cases "p_spc s") (auto simp: flags_ok_def)
qed

lemma consumer_consumer_ok:
  "consumer_step e s = Some (Ok s') \<Longrightarrow> consumer_ok (p_cpc s) s \<Longrightarrow> consumer_ok (p_cpc s') s'"
  by (cases "(e, p_cpc s, s)" rule: consumer_at.cases)
    (auto simp: consumer_step_def leave_queue_def dest: suffix_ConsD dest!: consume_one_mq split: if_splits)

lemma pipe_inv_consumer: "consumer_step e s = Some (Ok s') \<Longrightarrow> pipe_inv s \<Longrightarrow> pipe_inv s'"
  using consumer_flags [of e s s'] consumer_consumer_ok [of e s s'] by (simp add: pipe_inv_def)

lemma pipe_inv_shutdown: "pipe_inv s \<Longrightarrow> pipe_inv (s\<lparr>sd_sw := True\<rparr>)"
  using consumer_ok_frame [of "p_cpc s" s "s\<lparr>sd_sw := True\<rparr>"]
  by (auto simp: pipe_inv_def flags_ok_def)

lemma pipe_inv_step: "pipe_step e s s' \<Longrightarrow> pipe_inv s \<Longrightarrow> pipe_inv s'"
  by (induction rule: pipe_step.induct)
    (blast intro: pipe_inv_producer pipe_inv_consumer pipe_inv_switcher pipe_inv_shutdown)+

lemma pipe_inv_reach: "pipe_reach e g s \<Longrightarrow> pipe_inv s"
  by (induction rule: pipe_reach.induct) (blast intro: pipe_inv_start pipe_inv_step)+

text \<open>
  C8: Whatever the interleaving of the workers, the queue is locked exactly while the consumer walks
  it, the consumer is past its wait only while \<open>do_csm_mq\<close> is up, no other worker changes the
  queue under the lock, the consumer is told to stop only after the producer has ended, and the
  switcher ends after both.
\<close>

theorem worker_handshake:
  assumes "pipe_reach e g s"
  shows "p_locked s = (\<exists>ms. p_cpc s = CRun ms) \<and>
         (p_cpc s \<in> {CLoop, CWait, CDone} \<or> p_do_csm s) \<and>
         (\<forall>s'. pipe_step e s s' \<and> p_locked s \<and> p_locked s' \<longrightarrow> g_mq (p_g s') = g_mq (p_g s)) \<and>
         (sd_cons s \<longrightarrow> p_ppc s = PDone) \<and>
         (sd_sw_succ s \<longrightarrow> p_ppc s = PDone \<and> p_cpc s = CDone)"
proof -
  have inv: "pipe_inv s" using assms by (rule pipe_inv_reach)
  have "g_mq (p_g s') = g_mq (p_g s)" if "pipe_step e s s'" "p_locked s" "p_locked s'" for s'
    using that
  proof (cases rule: pipe_step.cases)
    case (producer response)
    with that show ?thesis using producer_frame by blast
  next
    case consumer
    with that show ?thesis
      by (cases "(e, p_cpc s, s)" rule: consumer_at.cases)
        (auto simp: consumer_step_def leave_queue_def dest!: create_mq consume_one_mq split: if_splits)
  next
    case switcher
    then show ?thesis using switcher_frame [of s s'] by simp
  qed simp
  moreover have "p_locked s = (\<exists>ms. p_cpc s = CRun ms) \<and> (p_cpc s \<in> {CLoop, CWait, CDone} \<or> p_do_csm s)"
    using inv by (cases "p_cpc s") (simp_all add: pipe_inv_def)
  moreover have "(sd_cons s \<longrightarrow> p_ppc s = PDone) \<and> (sd_sw_succ s \<longrightarrow> p_ppc s = PDone \<and> p_cpc s = CDone)"
    using inv by (auto simp: pipe_inv_def flags_ok_def)
  ultimately show ?thesis by blast
qed

lemma worker_handshake_witness:
  "\<not> p_locked (start_workers demo_gstate) \<and>
   (\<exists>s'. pipe_step demo_coll_env (start_workers demo_gstate) s' \<and> p_ppc s' = PWait)"
proof -
  let ?s = "start_workers demo_gstate"
  have "pipe_step demo_coll_env ?s (?s\<lparr>p_ppc := PWait\<rparr>)"
    by (rule pipe_step.producer [where response = "(0, None)"])
      (simp_all add: start_workers_def demo_gstate_def producer_step_def)
  moreover have "\<not> p_locked ?s"
    using worker_handshake [OF pipe_start [of demo_coll_env demo_gstate]] by (simp add: start_workers_def)
  ultimately show ?thesis by fastforce
qed

section \<open>Shutting down\<close>

lemma valid_frame:
  "is_tgfid_valid u w = Ok True \<Longrightarrow> cs_world (g_cmd g) = w \<Longrightarrow> is_tgfid_valid u (g_world g) = Ok True"
  by simp

text \<open>
  C22: Shutting down can hang. In an idle program there is an interleaving after which the switcher
  waits for the consumer, the consumer waits for \<open>do_csm_mq\<close> and nobody can ever take a step
  again: the consumer woke up, cleared the flag and went back to wait between the switcher's two
  stores to \<open>do_csm_mq\<close> and to the stop flag.
\<close>

theorem shutdown_can_hang:
  assumes "is_tgfid_valid (ce_user (co_cmd e)) (g_world g) = Ok True" and "g_exit g = None" and "g_mq g = []"
  shows "\<exists>s. pipe_reach e g s \<and> sd_sw s \<and> p_spc s = SCloseW \<and> p_cpc s = CWait \<and>
           (\<forall>s'. pipe_step e s s' \<longrightarrow> s' = s)"
proof -
  let ?start = "start_workers g"
  let ?told = "?start\<lparr>sd_sw := True, sd_prod := True, p_spc := SCloseP\<rparr>"
  let ?woken = "?told\<lparr>sd_prod_succ := True, p_ppc := PDone, p_do_csm := True, p_spc := SCloseC\<rparr>"
  let ?done = "?woken\<lparr>it_cnt_consumer := 1, p_do_csm := False, p_cpc := CLoop\<rparr>"
  let ?stuck = "?done\<lparr>p_cpc := CWait, sd_cons := True, p_spc := SCloseW\<rparr>"
  note defs = start_workers_def producer_step_def consumer_step_def switcher_step_def
  have c: "pipe_step e s s'" if "consumer_step e s = Some (Ok s')" "p_g s = g" for s s'
    using that assms(2) by (intro consumer) simp_all
  have w: "pipe_step e s s'" if "switcher_step s = Some s'" "p_g s = g" for s s'
    using that assms(2) by (intro switcher) simp_all
  have "pipe_reach e g (?start\<lparr>sd_sw := True\<rparr>)" by (rule pipe_next [OF pipe_start shutdown])
  then have "pipe_reach e g ?told" by (rule pipe_next, intro w) (simp_all add: defs)
  then have "pipe_reach e g (?told\<lparr>sd_prod_succ := True, p_ppc := PDone\<rparr>)"
    by (rule pipe_next, intro producer [where response = "(0, None)"]) (simp_all add: defs assms)
  then have "pipe_reach e g ?woken" by (rule pipe_next, intro w) (simp_all add: defs)
  then have "pipe_reach e g (?woken\<lparr>p_cpc := CWait\<rparr>)" by (rule pipe_next, intro c) (simp_all add: defs)
  then have "pipe_reach e g (?woken\<lparr>p_cpc := CCheck\<rparr>)" by (rule pipe_next, intro c) (simp_all add: defs)
  then have "pipe_reach e g (?woken\<lparr>p_cpc := CLock\<rparr>)"
    by (rule pipe_next, intro c) (simp_all add: defs assms)
  then have "pipe_reach e g (?woken\<lparr>p_cpc := CEnd\<rparr>)"
    by (rule pipe_next, intro c) (simp_all add: defs assms)
  then have "pipe_reach e g ?done" by (rule pipe_next, intro c) (simp_all add: defs)
  then have "pipe_reach e g (?done\<lparr>p_cpc := CWait\<rparr>)" by (rule pipe_next, intro c) (simp_all add: defs)
  then have "pipe_reach e g ?stuck" by (rule pipe_next, intro w) (simp_all add: defs)
  moreover have "s' = ?stuck" if "pipe_step e ?stuck s'" for s'
    using that by (cases rule: pipe_step.cases) (simp_all add: defs)
  moreover have "sd_sw ?stuck \<and> p_spc ?stuck = SCloseW \<and> p_cpc ?stuck = CWait" by simp
  ultimately show ?thesis by blast
qed

lemma demo_valid: "is_tgfid_valid (ce_user (co_cmd demo_coll_env)) (g_world demo_gstate) = Ok True"
proof -
  have "un_le64 [] = 0" by (simp add: un_le64_def Let_def eval_nat_numeral)
  then show ?thesis
    by (simp add: demo_coll_env_def demo_gstate_def demo_cstate_def demo_env_def blank_world_def
        is_tgfid_valid_def with_stream_def fopen_r_def)
qed

lemma shutdown_can_hang_witness:
  "\<exists>s. pipe_reach demo_coll_env demo_gstate s \<and> p_spc s = SCloseW \<and> (\<forall>s'. pipe_step demo_coll_env s s' \<longrightarrow> s' = s)"
  using shutdown_can_hang [OF demo_valid] by (auto simp: demo_gstate_def)

section \<open>Pausing\<close>

abbreviation paused :: "pstate \<Rightarrow> bool" where
  "paused s \<equiv> cs_pause (g_cmd (p_g s))"

text \<open>
  Runs in which the pause flag stays up and no shutdown is asked for, with the number of times that
  \<open>do_csm_mq\<close> goes up, which is the number of rounds that are started.
\<close>

inductive paused_run :: "'re coll_env \<Rightarrow> pstate \<Rightarrow> nat \<Rightarrow> pstate \<Rightarrow> bool" for e s where
  paused_refl: "paused_run e s 0 s"
| paused_step: "paused_run e s n s' \<Longrightarrow> pipe_step e s' s'' \<Longrightarrow> paused s'' \<Longrightarrow> \<not> sd_sw s'' \<Longrightarrow>
    paused_run e s (n + of_bool (\<not> p_do_csm s' \<and> p_do_csm s'')) s''"

lemma own_text_suffix: "handle_own_text e t g = Ok g' \<Longrightarrow> suffix (g_mq g) (g_mq g')"
  by (simp add: own_text_mq)

lemma fetch_mq_suffix:
  assumes "fetch_updates e (i, ob) g = Ok g'"
  shows "suffix (g_mq g) (g_mq g')"
proof (cases "takes_lock e i ob g")
  case False
  with fetch_mq [OF assms] show ?thesis by simp
next
  case True
  then obtain m where "ob = Some (updateNewMessage m)" "i = 0"
    by (auto simp: takes_lock_def split: option.splits Object.splits)
  with assms show ?thesis
    by (auto simp: fetch_updates_def process_response_def process_update_def process_new_message_def
        Let_def suffix_Cons dest!: own_text_suffix split: prod.splits if_splits MessageContent.splits)
qed

text \<open>The switcher has found the pause flag down and not yet acted on it.\<close>

definition past_test :: "pstate \<Rightarrow> bool" where
  "past_test s = (p_spc s \<in> {SBusy, SLock})"

lemma paused_switcher:
  assumes "switcher_step s = Some s'" and "paused s" and "\<not> sd_sw s" and "pipe_inv s"
  shows "\<not> past_test s \<Longrightarrow> \<not> past_test s' \<and> p_do_csm s' = p_do_csm s"
    and "\<not> p_do_csm s \<and> p_do_csm s' \<Longrightarrow> past_test s \<and> \<not> past_test s'"
    and "p_cnt s' = p_cnt s" and "p_g s' = p_g s"
proof -
  have spc: "p_spc s \<in> {SLoop, STest, SBusy, SLock, SCount}"
    using assms(3,4) by (cases "p_spc s") (auto simp: pipe_inv_def flags_ok_def)
  have at: "switcher_at (p_spc s) s = Some s'" using assms(1) by (simp add: switcher_step_def)
  have step: "s' = s\<lparr>p_spc := STest\<rparr> \<and> p_spc s = SLoop \<or> s' = s\<lparr>p_spc := SCount\<rparr> \<and> p_spc s \<in> {STest, SLock} \<or>
      s' = s\<lparr>p_spc := SLoop\<rparr> \<and> p_spc s = SBusy \<or> s' = s\<lparr>p_spc := SLock\<rparr> \<and> p_spc s = SBusy \<or>
      s' = s\<lparr>p_do_csm := True, p_spc := SCount\<rparr> \<and> p_spc s = SLock \<or>
      s' = s\<lparr>it_cnt_switcher := it_cnt_switcher s + 1, p_spc := SLoop\<rparr> \<and> p_spc s = SCount"
    using spc at assms(2,3) by (cases "p_spc s") (simp_all split: if_split_asm)
  then have "(\<not> past_test s \<longrightarrow> \<not> past_test s' \<and> p_do_csm s' = p_do_csm s) \<and>
      (\<not> p_do_csm s \<and> p_do_csm s' \<longrightarrow> past_test s \<and> \<not> past_test s') \<and> p_cnt s' = p_cnt s \<and> p_g s' = p_g s"
    unfolding past_test_def by (elim disjE conjE) simp_all
  then show "\<not> past_test s \<Longrightarrow> \<not> past_test s' \<and> p_do_csm s' = p_do_csm s"
    and "\<not> p_do_csm s \<and> p_do_csm s' \<Longrightarrow> past_test s \<and> \<not> past_test s'"
    and "p_cnt s' = p_cnt s" and "p_g s' = p_g s"
    by blast+
qed

lemma producer_keeps:
  assumes "producer_step e response s = Some (Ok s')"
  shows "p_do_csm s' = p_do_csm s" and "p_spc s' = p_spc s" and "p_cnt s' = p_cnt s"
    and "suffix (g_mq (p_g s)) (g_mq (p_g s'))"
  using assms
  by (cases "p_ppc s"; auto simp: producer_step_def dest: fetch_mq_suffix split: if_splits)+

lemma consumer_keeps:
  assumes "consumer_step e s = Some (Ok s')"
  shows "p_do_csm s' \<Longrightarrow> p_do_csm s" and "p_spc s' = p_spc s"
  using assms
  by (cases "(e, p_cpc s, s)" rule: consumer_at.cases;
      auto simp: consumer_step_def leave_queue_def split: if_splits)+

text \<open>A step of a paused run raises \<open>do_csm_mq\<close> only when it spends the test that was passed.\<close>

lemma paused_wakes:
  assumes "pipe_step e s s'" and "paused s" and "\<not> sd_sw s'" and "pipe_inv s"
  shows "of_bool (\<not> p_do_csm s \<and> p_do_csm s') + (of_bool (past_test s') :: nat) \<le> of_bool (past_test s)"
  using assms(1)
proof (cases rule: pipe_step.cases)
  case (producer response)
  from producer_keeps [OF producer(2)] show ?thesis by (simp add: past_test_def)
next
  case consumer
  from consumer_keeps [OF consumer(2)] show ?thesis by (auto simp: past_test_def)
next
  case switcher
  have "\<not> sd_sw s"
    using switcher(2) assms(3) by (cases "p_spc s") (auto simp: switcher_step_def split: if_splits)
  from paused_switcher [OF switcher(2) assms(2) this assms(4)] show ?thesis by auto
next
  case shutdown
  with assms(3) show ?thesis by simp
qed

definition idle :: "pstate \<Rightarrow> bool" where
  "idle s = (\<not> p_do_csm s \<and> p_cpc s \<in> {CLoop, CWait} \<and> \<not> sd_cons s)"

text \<open>A consumer that waits stays where it is until it is woken.\<close>

lemma idle_step:
  assumes "pipe_step e s s'" and "idle s" and "paused s" and "\<not> sd_sw s'" and "pipe_inv s" and "\<not> p_do_csm s'"
  shows "idle s' \<and> p_cnt s' = p_cnt s \<and> suffix (g_mq (p_g s)) (g_mq (p_g s'))"
proof -
  have inv: "pipe_inv s'" using pipe_inv_step assms(1,5) by blast
  then have cons: "\<not> sd_cons s'" using assms(4) by (auto simp: pipe_inv_def flags_ok_def)
  show ?thesis
    using assms(1)
  proof (cases rule: pipe_step.cases)
    case (producer response)
    from producer_keeps [OF producer(2)] producer_frame [OF producer(2)] assms(2) cons
    show ?thesis by (simp add: idle_def)
  next
    case consumer
    with assms(2) cons show ?thesis by (auto simp: consumer_step_def idle_def)
  next
    case switcher
    then show ?thesis
      using assms(2,6) cons switcher_frame [OF switcher(2)]
      by (cases "p_spc s") (auto simp: switcher_step_def idle_def split: if_splits)
  next
    case shutdown
    with assms(4) show ?thesis by simp
  qed
qed

lemma paused_run_facts:
  assumes "paused_run e s n s'" and "paused s" and "\<not> sd_sw s" and "pipe_inv s"
  shows "paused s' \<and> \<not> sd_sw s' \<and> pipe_inv s' \<and> n + of_bool (past_test s') \<le> of_bool (past_test s) \<and>
    (n = 0 \<and> idle s \<longrightarrow> idle s' \<and> p_cnt s' = p_cnt s \<and> suffix (g_mq (p_g s)) (g_mq (p_g s')))"
  using assms(1)
proof (induction rule: paused_run.induct)
  case paused_refl
  show ?case using assms(2-4) by simp
next
  case (paused_step n s' s'')
  have inv: "pipe_inv s''" using pipe_inv_step paused_step.hyps(2) paused_step.IH by blast
  have "of_bool (\<not> p_do_csm s' \<and> p_do_csm s'') + (of_bool (past_test s'') :: nat) \<le> of_bool (past_test s')"
    using paused_wakes paused_step by blast
  moreover have "idle s'' \<and> p_cnt s'' = p_cnt s' \<and> suffix (g_mq (p_g s')) (g_mq (p_g s''))"
    if "idle s'" "\<not> p_do_csm s''"
    using idle_step [OF paused_step.hyps(2) that(1) _ paused_step.hyps(4) _ that(2)] paused_step.IH by blast
  ultimately show ?case
    using paused_step inv by (auto simp: idle_def intro: suffix_order.trans)
qed

text \<open>The late round: from a test that was passed, two steps of the switcher at most.\<close>

lemma late_round:
  assumes "past_test s" and "\<not> p_do_csm s" and "g_mq (p_g s) \<noteq> []" and "g_exit (p_g s) = None"
    and "paused s" and "\<not> sd_sw s" and "\<not> p_locked s"
  shows "\<exists>s'. paused_run e s 1 s' \<and> p_do_csm s' \<and> g_mq (p_g s') = g_mq (p_g s)"
proof -
  let ?s1 = "s\<lparr>p_spc := SLock\<rparr>" and ?s2 = "s\<lparr>p_do_csm := True, p_spc := SCount\<rparr>"
  have "paused_run e s 0 ?s1"
  proof (cases "p_spc s = SLock")
    case True
    then have "?s1 = s" by simp
    then show ?thesis by (simp add: paused_refl)
  next
    case False
    then have "pipe_step e s ?s1"
      using assms by (intro pipe_step.switcher) (auto simp: switcher_step_def past_test_def)
    from paused_step [OF paused_refl this] assms(2,5,6) show ?thesis by simp
  qed
  moreover have "pipe_step e ?s1 ?s2"
    using assms by (intro pipe_step.switcher) (auto simp: switcher_step_def)
  ultimately have "paused_run e s 1 ?s2"
    using paused_step [of e s 0 ?s1 ?s2] assms(2,5,6) by simp
  then show ?thesis by (intro exI [of _ ?s2]) simp
qed

text \<open>
  C16: Pausing. As long as the pause lasts and no shutdown is asked for, in every interleaving from
  every reachable state, at most one more round of the consumer is started, and none unless the
  switcher had found the pause flag down before it was raised and not yet acted on that. While none
  is started and none was under way, nothing is forwarded and nothing is lost: the consumer stays
  before its wait, its count stays, and the queue only grows. The one late round does happen: when
  the switcher has passed its test and there are messages, the switcher's own steps start it.
\<close>

theorem pause_holds:
  assumes "pipe_reach e g s" and "paused s" and "\<not> sd_sw s"
  shows "(\<forall>n s'. paused_run e s n s' \<longrightarrow>
            n \<le> (if past_test s then 1 else 0) \<and>
            (n = 0 \<and> \<not> p_do_csm s \<longrightarrow>
               \<not> p_do_csm s' \<and> p_cpc s' \<in> {CLoop, CWait} \<and> p_cnt s' = p_cnt s \<and>
               suffix (g_mq (p_g s)) (g_mq (p_g s')))) \<and>
         (past_test s \<and> \<not> p_do_csm s \<and> g_mq (p_g s) \<noteq> [] \<and> g_exit (p_g s) = None \<longrightarrow>
            (\<exists>s'. paused_run e s 1 s' \<and> p_do_csm s' \<and> g_mq (p_g s') = g_mq (p_g s)))"
proof -
  have inv: "pipe_inv s" using assms(1) by (rule pipe_inv_reach)
  have idle: "idle s" if "\<not> p_do_csm s"
    using inv that assms(3) by (cases "p_cpc s") (auto simp: idle_def pipe_inv_def flags_ok_def)
  have "\<exists>s'. paused_run e s 1 s' \<and> p_do_csm s' \<and> g_mq (p_g s') = g_mq (p_g s)"
    if "past_test s" "\<not> p_do_csm s" "g_mq (p_g s) \<noteq> []" "g_exit (p_g s) = None"
  proof -
    have "\<not> p_locked s" using idle [OF that(2)] inv by (auto simp: idle_def pipe_inv_def)
    with late_round that assms(2,3) show ?thesis by blast
  qed
  moreover have "n \<le> (if past_test s then 1 else 0) \<and>
      (n = 0 \<and> \<not> p_do_csm s \<longrightarrow> \<not> p_do_csm s' \<and> p_cpc s' \<in> {CLoop, CWait} \<and> p_cnt s' = p_cnt s \<and>
         suffix (g_mq (p_g s)) (g_mq (p_g s')))"
    if "paused_run e s n s'" for n s'
  proof -
    have le: "n + of_bool (past_test s') \<le> of_bool (past_test s)"
      and keep: "n = 0 \<and> idle s \<longrightarrow> idle s' \<and> p_cnt s' = p_cnt s \<and> suffix (g_mq (p_g s)) (g_mq (p_g s'))"
      using paused_run_facts [OF that assms(2,3) inv] by blast+
    from le have "n \<le> (if past_test s then 1 else 0)" by (auto split: if_splits)
    with keep idle show ?thesis by (auto simp: idle_def)
  qed
  ultimately show ?thesis by blast
qed

text \<open>The run in which the pause command arrives between the two tests of the switcher.\<close>

definition pause_update :: Object where
  "pause_update = updateNewMessage
     \<lparr>msg_chat_id = 0, msg_sender_id = messageSenderChat 0, msg_content = messageText ''TGFCMD pause'', msg_date = 0\<rparr>"

lemma fetch_pause:
  "\<exists>g'. fetch_updates demo_coll_env (0, Some pause_update) (demo_gstate\<lparr>g_mq := ms\<rparr>) = Ok g' \<and>
     cs_pause (g_cmd g') \<and> g_mq g' = ms \<and> g_exit g' = None \<and> c_curr_qry_id (g_coll g') = 1"
proof -
  have id0: "get_tgfid (ce_user (co_cmd demo_coll_env)) (g_world (demo_gstate\<lparr>g_mq := ms\<rparr>)) = Ok 0"
    using demo_tgfid by simp
  show ?thesis
    using id0
    by (auto simp: pause_update_def fetch_updates_def process_response_def process_update_def
        process_new_message_def title_entry_def handle_own_text_def is_tgfcmd_def find_first_not_of_def
        erase_front_def handle_tgfcmd_def run_tgfcmd_def pick_cmd_def CHATCMD_PAUSE_def
        new_ChatCmdHandler_def handle_pause_def on_coll_def demo_gstate_def new_TdCollector_def)
qed

lemma late_pause:
  "\<exists>s. pipe_reach demo_coll_env (demo_gstate\<lparr>g_mq := [t]\<rparr>) s \<and> paused s \<and> p_spc s = SBusy \<and> \<not> sd_sw s \<and>
     \<not> p_do_csm s \<and> g_mq (p_g s) = [t] \<and> g_exit (p_g s) = None"
proof -
  let ?e = demo_coll_env and ?g = "demo_gstate\<lparr>g_mq := [t]\<rparr>" and ?ob = "Some pause_update"
  let ?s0 = "start_workers ?g"
  obtain g' where g': "fetch_updates ?e (0, ?ob) ?g = Ok g'" "cs_pause (g_cmd g')" "g_mq g' = [t]" "g_exit g' = None"
    using fetch_pause [of "[t]"] by blast
  have st: "p_g ?s0 = ?g" "g_exit ?g = None" "\<not> sd_prod ?s0" "\<not> sd_sw ?s0" "\<not> p_do_csm ?s0" "\<not> p_locked ?s0"
    "p_ppc ?s0 = PLoop" "p_spc ?s0 = SLoop" "\<not> cs_pause (g_cmd demo_gstate)" "it_cnt_producer ?s0 = 0"
    by (simp_all add: start_workers_def demo_gstate_def demo_cstate_def)
  let ?s1 = "?s0\<lparr>p_spc := STest\<rparr>" and ?s2 = "?s0\<lparr>p_spc := SBusy\<rparr>"
  note w = pipe_next [OF _ pipe_step.switcher] and p = pipe_next [OF _ pipe_step.producer [where response = "(0, ?ob)"]]
  have "pipe_reach ?e ?g ?s1" by (rule w [OF pipe_start]) (simp_all add: st switcher_step_def)
  then have "pipe_reach ?e ?g ?s2" by (rule w) (simp_all add: st switcher_step_def)
  then have "pipe_reach ?e ?g (?s2\<lparr>p_ppc := PWait\<rparr>)" by (rule p) (simp_all add: st producer_step_def)
  then have "pipe_reach ?e ?g (?s2\<lparr>p_ppc := PFetch\<rparr>)" by (rule p) (simp_all add: st producer_step_def)
  then have "pipe_reach ?e ?g (?s2\<lparr>p_ppc := PBusy 0 ?ob\<rparr>)" by (rule p) (simp_all add: st producer_step_def)
  then have "pipe_reach ?e ?g (?s2\<lparr>p_g := g', it_cnt_producer := 1, p_ppc := PLoop\<rparr>)"
    by (rule p) (simp_all add: st producer_step_def takes_lock_def g'(1))
  with g' st show ?thesis by (intro exI [of _ "?s2\<lparr>p_g := g', it_cnt_producer := 1, p_ppc := PLoop\<rparr>"]) simp
qed

lemma pause_holds_witness:
  "\<exists>g s s'. pipe_reach demo_coll_env g s \<and> paused s \<and> p_spc s = SBusy \<and> paused_run demo_coll_env s 1 s' \<and>
     p_do_csm s' \<and> length (g_mq (p_g s')) = 1 \<and> (\<forall>n s''. paused_run demo_coll_env s n s'' \<longrightarrow> n \<le> 1)"
proof -
  obtain t :: TgMsg where True by blast
  obtain s where s: "pipe_reach demo_coll_env (demo_gstate\<lparr>g_mq := [t]\<rparr>) s" "paused s" "p_spc s = SBusy"
    "\<not> sd_sw s" "\<not> p_do_csm s" "g_mq (p_g s) = [t]" "g_exit (p_g s) = None"
    using late_pause [of t] by blast
  then have "past_test s" by (simp add: past_test_def)
  from pause_holds [OF s(1,2,4)] this s(5-7) obtain s' where
    "paused_run demo_coll_env s 1 s'" "p_do_csm s'" "g_mq (p_g s') = [t]"
    "\<forall>n s''. paused_run demo_coll_env s n s'' \<longrightarrow> n \<le> 1" by auto
  with s(1-3) show ?thesis by (metis length_Cons list.size(3) One_nat_def)
qed

section \<open>One round of the consumer\<close>

text \<open>Several steps of the consumer on its own.\<close>

fun consumer_iter :: "'re coll_env \<Rightarrow> nat \<Rightarrow> pstate \<Rightarrow> pstate res option" where
  "consumer_iter e 0 s = Some (Ok s)"
| "consumer_iter e (Suc n) s =
     (case consumer_step e s of Some (Ok s') \<Rightarrow> consumer_iter e n s' | r \<Rightarrow> r)"

text \<open>The reference: filter the messages, then number what is left.\<close>

definition accepted :: "'re coll_env \<Rightarrow> 're FilterGroup \<Rightarrow> TgMsg list \<Rightarrow> TgMsg list" where
  "accepted e fg ms =
     filter (\<lambda>m. \<not> is_from_tgfocus m \<and> fst (group_mtch_tgmsg (ce_eng (co_cmd e)) fg m)) ms"

fun number_from :: "i32 \<Rightarrow> TgMsg list \<Rightarrow> TgMsg list" where
  "number_from k [] = []"
| "number_from k (m # ms) = set_id (k + 1) m # number_from (k + 1) ms"

definition forwards :: "'re coll_env \<Rightarrow> i64 \<Rightarrow> TgMsg list \<Rightarrow> Function list" where
  "forwards e i ms = map (\<lambda>m. sendMessage i (to_locale_string (co_lang e) m) []) ms"

lemma consume_one_ok:
  assumes "load_group (co_cmd e) (g_world g) = Ok fg"
    and "get_tgfid (ce_user (co_cmd e)) (g_world g) = Ok i"
  shows "\<exists>g'. consume_one e m (k, g) = Ok (k + of_nat (length (accepted e fg [m])), g') \<and>
           g_world g' = g_world g \<and>
           map snd (c_sent (g_coll g')) =
             map snd (c_sent (g_coll g)) @ forwards e i (number_from k (accepted e fg [m]))"
proof -
  obtain t where t: "get_filters (ce_user (co_cmd e)) (g_world g) = Ok t"
    and fg: "fg = new_FilterGroupToml (ce_eng (co_cmd e)) (ce_toml (co_cmd e)) (ce_i0 (co_cmd e)) t"
    using assms(1) by (auto simp: load_group_def)
  show ?thesis
    using t assms(2)
    by (auto simp: consume_one_def need_collect_def fg accepted_def forwards_def collect_msg_def
        on_coll_def Let_def decorate_msg_def)
qed

lemma number_from_append:
  "number_from k (xs @ ys) = number_from k xs @ number_from (k + of_nat (length xs)) ys"
  by (induction xs arbitrary: k) (simp_all add: add.assoc)

lemma consumer_iter_run:
  assumes "load_group (co_cmd e) (g_world (p_g s)) = Ok fg"
    and "get_tgfid (ce_user (co_cmd e)) (g_world (p_g s)) = Ok i"
    and "p_cpc s = CRun ms" and "\<not> sd_cons s"
  shows "\<exists>s'. consumer_iter e (Suc (length ms)) s = Some (Ok s') \<and> p_cpc s' = CEnd \<and>
           \<not> p_locked s' \<and> g_mq (p_g s') = [] \<and>
           p_cnt s' = p_cnt s + of_nat (length (accepted e fg ms)) \<and>
           map snd (c_sent (g_coll (p_g s'))) = map snd (c_sent (g_coll (p_g s))) @
             forwards e i (number_from (p_cnt s) (accepted e fg ms))"
  using assms
proof (induction ms arbitrary: s)
  case Nil
  then show ?case by (simp add: consumer_step_def leave_queue_def accepted_def forwards_def)
next
  case (Cons m ms)
  let ?acc = "accepted e fg [m]"
  obtain g' where g': "consume_one e m (p_cnt s, p_g s) = Ok (p_cnt s + of_nat (length ?acc), g')"
    "g_world g' = g_world (p_g s)"
    and sent: "map snd (c_sent (g_coll g')) = map snd (c_sent (g_coll (p_g s))) @
      forwards e i (number_from (p_cnt s) ?acc)"
    using consume_one_ok [OF Cons.prems(1,2)] by blast
  let ?s = "s\<lparr>p_g := g', p_cnt := p_cnt s + of_nat (length ?acc), p_cpc := CRun ms\<rparr>"
  have step: "consumer_step e s = Some (Ok ?s)"
    using Cons.prems(3,4) g' by (simp add: consumer_step_def)
  have app: "accepted e fg (m # ms) = ?acc @ accepted e fg ms" by (simp add: accepted_def)
  have "\<exists>s'. consumer_iter e (Suc (length ms)) ?s = Some (Ok s') \<and> p_cpc s' = CEnd \<and>
           \<not> p_locked s' \<and> g_mq (p_g s') = [] \<and>
           p_cnt s' = p_cnt ?s + of_nat (length (accepted e fg ms)) \<and>
           map snd (c_sent (g_coll (p_g s'))) = map snd (c_sent (g_coll (p_g ?s))) @
             forwards e i (number_from (p_cnt ?s) (accepted e fg ms))"
    using Cons.prems g'(2) by (intro Cons.IH) simp_all
  then obtain s' where s': "consumer_iter e (Suc (length ms)) ?s = Some (Ok s')" "p_cpc s' = CEnd"
    "\<not> p_locked s'" "g_mq (p_g s') = []"
    "p_cnt s' = p_cnt ?s + of_nat (length (accepted e fg ms))"
    "map snd (c_sent (g_coll (p_g s'))) = map snd (c_sent (g_coll (p_g ?s))) @
       forwards e i (number_from (p_cnt ?s) (accepted e fg ms))" by blast
  have it: "consumer_iter e (Suc (length (m # ms))) s = Some (Ok s')"
    using s'(1)
    by (simp only: length_Cons consumer_iter.simps(2) [of e "Suc (length ms)"] step option.case res.case)
  show ?case
    by (intro exI [of _ s'] conjI it s')
      (simp_all add: s'(5,6) sent app number_from_append forwards_def add.assoc)
qed

text \<open>
  C7: A round of the consumer equals its reference. Started on a locked queue, without a shutdown, it
  ends after one step per message and one more; what it has sent is one message per queued message
  that the stored filters accept and that is not from the program's own chat, newest first, numbered
  on from the count; then the queue is empty and unlocked.
\<close>

theorem consumer_round:
  assumes "load_group (co_cmd e) (g_world (p_g s)) = Ok fg"
    and "get_tgfid (ce_user (co_cmd e)) (g_world (p_g s)) = Ok i"
    and "p_cpc s = CRun ms" and "\<not> sd_cons s"
  shows "\<exists>s'. consumer_iter e (Suc (length ms)) s = Some (Ok s') \<and> p_cpc s' = CEnd \<and>
           \<not> p_locked s' \<and> g_mq (p_g s') = [] \<and>
           p_cnt s' = p_cnt s + of_nat (length (accepted e fg ms)) \<and>
           map snd (c_sent (g_coll (p_g s'))) = map snd (c_sent (g_coll (p_g s))) @
             forwards e i (number_from (p_cnt s) (accepted e fg ms))"
  using assms by (rule consumer_iter_run)

lemma consumer_round_witness:
  "\<exists>s'. consumer_iter demo_coll_env 3 (start_workers demo_gstate\<lparr>p_locked := True, p_cpc := CRun
        [\<lparr>m_title = ''t'', m_sender = ''s'', m_txt = ''x'', m_tstamp = [], m_id = 0\<rparr>,
         \<lparr>m_title = ''TG-FOCUS'', m_sender = ''s'', m_txt = ''y'', m_tstamp = [], m_id = 0\<rparr>]\<rparr>) = Some (Ok s') \<and>
     p_cnt s' = 1 \<and> p_cpc s' = CEnd"
proof -
  let ?ms = "[\<lparr>m_title = ''t'', m_sender = ''s'', m_txt = ''x'', m_tstamp = [], m_id = 0\<rparr>,
     \<lparr>m_title = ''TG-FOCUS'', m_sender = ''s'', m_txt = ''y'', m_tstamp = [], m_id = 0\<rparr>]"
  let ?s = "start_workers demo_gstate\<lparr>p_locked := True, p_cpc := CRun ?ms\<rparr>"
  let ?fg = "\<lparr>i_prev_visited = 0, filters = [empty_filter]\<rparr> :: string FilterGroup"
  have w: "g_world (p_g ?s) = blank_world"
    by (simp add: start_workers_def demo_gstate_def demo_cstate_def)
  have fg: "load_group (co_cmd demo_coll_env) (g_world (p_g ?s)) = Ok ?fg"
    unfolding w using demo_facts(2) by (simp add: demo_coll_env_def)
  have i: "get_tgfid (ce_user (co_cmd demo_coll_env)) (g_world (p_g ?s)) = Ok 0"
    using demo_tgfid by (simp add: start_workers_def)
  have "length (accepted demo_coll_env ?fg ?ms) = 1"
    by (simp add: accepted_def is_from_tgfocus_def group_mtch_tgmsg_def mtch_loop_spec
        empty_filter_accepts)
  moreover have "p_cpc ?s = CRun ?ms" "\<not> sd_cons ?s" "p_cnt ?s = 0" by (simp_all add: start_workers_def)
  moreover have "Suc (length ?ms) = 3" by simp
  ultimately show ?thesis using consumer_round [OF fg i, of ?ms] by (metis add_0 of_nat_1)
qed

section \<open>Two calls at the same time\<close>

text \<open>
  The handshake does not keep producer and consumer out of the collector at the same time: the
  producer waits only before it asks for the next response, so the consumer may be woken while the
  producer handles a command. Here each is about to send its request, and would give it number one;
  \<open>request_ids_fresh\<close> says what becomes of the two.
\<close>

lemma calls_can_overlap:
  "\<exists>s t g1 k g2. pipe_reach demo_coll_env (demo_gstate\<lparr>g_mq := [t]\<rparr>) s \<and>
     p_ppc s = PBusy 0 (Some pause_update) \<and> p_cpc s = CRun [t] \<and> c_curr_qry_id (g_coll (p_g s)) = 0 \<and>
     fetch_updates demo_coll_env (0, Some pause_update) (p_g s) = Ok g1 \<and> c_curr_qry_id (g_coll g1) = 1 \<and>
     consume_one demo_coll_env t (p_cnt s, p_g s) = Ok (k, g2) \<and> c_sent (g_coll g2) \<noteq> []"
proof -
  let ?t = "\<lparr>m_title = ''t'', m_sender = ''s'', m_txt = ''x'', m_tstamp = [], m_id = 0\<rparr>"
  let ?e = demo_coll_env and ?g = "demo_gstate\<lparr>g_mq := [?t]\<rparr>" and ?ob = "Some pause_update"
  let ?fg = "\<lparr>i_prev_visited = 0, filters = [empty_filter]\<rparr> :: string FilterGroup"
  let ?s0 = "start_workers ?g"
  have st: "p_g ?s0 = ?g" "g_exit ?g = None" "\<not> sd_prod ?s0" "\<not> sd_sw ?s0" "\<not> sd_cons ?s0" "\<not> p_do_csm ?s0"
    "\<not> p_locked ?s0" "p_ppc ?s0 = PLoop" "p_cpc ?s0 = CLoop" "p_spc ?s0 = SLoop" "p_cnt ?s0 = 0"
    "\<not> cs_pause (g_cmd demo_gstate)" "c_curr_qry_id (g_coll demo_gstate) = 0" "c_sent (g_coll demo_gstate) = []"
    by (simp_all add: start_workers_def demo_gstate_def demo_cstate_def new_TdCollector_def)
  have valid: "is_tgfid_valid (ce_user (co_cmd ?e)) (g_world ?g) = Ok True" using demo_valid by simp
  note w = pipe_next [OF _ pipe_step.switcher] and c = pipe_next [OF _ pipe_step.consumer]
    and p = pipe_next [OF _ pipe_step.producer [where response = "(0, ?ob)"]]
  let ?s1 = "?s0\<lparr>p_ppc := PBusy 0 ?ob\<rparr>"
  have "pipe_reach ?e ?g (?s0\<lparr>p_ppc := PWait\<rparr>)"
    by (rule p [OF pipe_start]) (simp_all add: st producer_step_def)
  then have "pipe_reach ?e ?g (?s0\<lparr>p_ppc := PFetch\<rparr>)" by (rule p) (simp_all add: st producer_step_def)
  then have "pipe_reach ?e ?g ?s1" by (rule p) (simp_all add: st producer_step_def)
  then have "pipe_reach ?e ?g (?s1\<lparr>p_spc := STest\<rparr>)" by (rule w) (simp_all add: st switcher_step_def)
  then have "pipe_reach ?e ?g (?s1\<lparr>p_spc := SBusy\<rparr>)" by (rule w) (simp_all add: st switcher_step_def)
  then have "pipe_reach ?e ?g (?s1\<lparr>p_spc := SLock\<rparr>)" by (rule w) (simp_all add: st switcher_step_def)
  then have "pipe_reach ?e ?g (?s1\<lparr>p_do_csm := True, p_spc := SCount\<rparr>)"
    by (rule w) (simp_all add: st switcher_step_def)
  then have "pipe_reach ?e ?g (?s1\<lparr>p_do_csm := True, p_cpc := CWait, p_spc := SCount\<rparr>)"
    by (rule c) (simp_all add: st consumer_step_def)
  then have "pipe_reach ?e ?g (?s1\<lparr>p_do_csm := True, p_cpc := CCheck, p_spc := SCount\<rparr>)"
    by (rule c) (simp_all add: st consumer_step_def)
  then have "pipe_reach ?e ?g (?s1\<lparr>p_do_csm := True, p_cpc := CLock, p_spc := SCount\<rparr>)"
    by (rule c) (use valid in \<open>simp_all add: st consumer_step_def\<close>)
  then have reach: "pipe_reach ?e ?g (?s1\<lparr>p_do_csm := True, p_locked := True, p_cpc := CRun [?t], p_spc := SCount\<rparr>)"
    by (rule c) (use valid in \<open>simp_all add: st consumer_step_def\<close>)
  let ?s = "?s1\<lparr>p_do_csm := True, p_locked := True, p_cpc := CRun [?t], p_spc := SCount\<rparr>"
  have pg: "p_g ?s = ?g" "p_cnt ?s = 0" by (simp_all add: st)
  obtain g1 where g1: "fetch_updates ?e (0, ?ob) (p_g ?s) = Ok g1" "c_curr_qry_id (g_coll g1) = 1"
    unfolding pg using fetch_pause [of "[?t]"] by blast
  have fg: "load_group (co_cmd ?e) (g_world (p_g ?s)) = Ok ?fg"
    unfolding pg using demo_facts(2) by (simp add: demo_coll_env_def demo_gstate_def demo_cstate_def)
  have i: "get_tgfid (ce_user (co_cmd ?e)) (g_world (p_g ?s)) = Ok 0"
    unfolding pg using demo_tgfid by simp
  have "accepted ?e ?fg [?t] = [?t]"
    by (simp add: accepted_def is_from_tgfocus_def group_mtch_tgmsg_def mtch_loop_spec empty_filter_accepts)
  then obtain k g2 where g2: "consume_one ?e ?t (p_cnt ?s, p_g ?s) = Ok (k, g2)" "c_sent (g_coll g2) \<noteq> []"
    using consume_one_ok [OF fg i, of ?t "p_cnt ?s"] by (fastforce simp: forwards_def)
  show ?thesis
    by (intro exI [of _ ?s] exI [of _ ?t] exI [of _ g1] exI [of _ k] exI [of _ g2] conjI reach g1 g2)
      (simp_all add: st)
qed

end
