(* ===== verification/Progress.thy ===== *)
theory Progress
  imports Pipeline
begin

text \<open>
  Progress of the workers of \<open>Pipeline\<close> outside a shutdown: what a series of messages puts into the
  queue, and that consumer and switcher can always bring the queue to its end without the producer.
\<close>

section \<open>Messages of other chats\<close>

text \<open>What the intake makes of messages of other chats, given the tables it looks names up in.\<close>

fun taken :: "timezone \<Rightarrow> message list \<Rightarrow> TdCollector \<Rightarrow> TgMsg list" where
  "taken tz [] c = []"
| "taken tz (m # ms) c =
     (let (title, c1) = title_entry (msg_chat_id m) c
      in new_TgMsg tz title (sender_name_of (msg_sender_id m) c1) (content_text (msg_content m)) (msg_date m) #
           taken tz ms c1)"

lemma intake_all:
  assumes "get_tgfid (ce_user (co_cmd e)) (g_world g) = Ok i" and "\<forall>m\<in>set ms. msg_chat_id m \<noteq> i"
  shows "\<exists>g'. run_ops (\<lambda>m. process_update e (updateNewMessage m)) ms g = Ok g' \<and> g_cmd g' = g_cmd g \<and>
    c_sent (g_coll g') = c_sent (g_coll g) \<and> g_exit g' = g_exit g \<and>
    g_mq g' = rev (taken (co_tz e) ms (g_coll g)) @ g_mq g \<and>
    g_msg_total g' = g_msg_total g + of_nat (length ms)"
  using assms
proof (induction ms arbitrary: g)
  case (Cons m ms)
  obtain title c1 where te: "title_entry (msg_chat_id m) (g_coll g) = (title, c1)"
    by (cases "title_entry (msg_chat_id m) (g_coll g)")
  have c1: "c_sent c1 = c_sent (g_coll g)" using te by (auto simp: title_entry_def split: option.splits)
  let ?t = "new_TgMsg (co_tz e) title (sender_name_of (msg_sender_id m) c1) (content_text (msg_content m)) (msg_date m)"
  let ?g = "g\<lparr>g_coll := c1, g_mq := ?t # g_mq g, g_msg_total := g_msg_total g + 1\<rparr>"
  have "process_update e (updateNewMessage m) g = Ok ?g"
    using Cons.prems te by (simp add: process_update_def process_new_message_def)
  moreover have "get_tgfid (ce_user (co_cmd e)) (g_world ?g) = Ok i" "\<forall>m\<in>set ms. msg_chat_id m \<noteq> i"
    using Cons.prems by simp_all
  note Cons.IH [OF this]
  ultimately show ?case using c1 te by (auto simp: add.assoc)
qed simp

lemma tgfid_valid: "get_tgfid u w = Ok i \<Longrightarrow> is_tgfid_valid u w = Ok (i \<noteq> -1)"
  by (auto simp: get_tgfid_def is_tgfid_valid_def with_stream_def split: option.splits)

lemma taken_length [simp]: "length (taken tz ms c) = length ms"
  by (induction ms arbitrary: c) (simp_all add: case_prod_beta Let_def)

section \<open>Steps of consumer and switcher\<close>

inductive drive :: "'re coll_env \<Rightarrow> pstate \<Rightarrow> pstate \<Rightarrow> bool" for e where
  drive_consumer: "g_exit (p_g s) = None \<Longrightarrow> consumer_step e s = Some (Ok s') \<Longrightarrow> drive e s s'"
| drive_switcher: "g_exit (p_g s) = None \<Longrightarrow> switcher_step s = Some s' \<Longrightarrow> drive e s s'"

lemma drive_pipe:
  assumes "drive e s s'"
  shows "pipe_step e s s'"
  using assms
proof (cases rule: drive.cases)
  case drive_consumer
  then show ?thesis by (rule pipe_step.consumer)
next
  case drive_switcher
  then show ?thesis by (rule pipe_step.switcher)
qed

lemma create_exit: "try_create_tgfchat e g = Ok g' \<Longrightarrow> g_exit g' = g_exit g"
  by (auto simp: try_create_tgfchat_def Let_def on_coll_def split: if_splits)

lemma consume_one_exit: "consume_one e m (k, g) = Ok (k', g') \<Longrightarrow> g_exit g' = g_exit g"
  by (auto simp: consume_one_def collect_msg_def Let_def on_coll_def split: if_splits)

lemma consumer_exit: "consumer_step e s = Some (Ok s') \<Longrightarrow> g_exit (p_g s') = g_exit (p_g s)"
  by (cases "(e, p_cpc s, s)" rule: consumer_at.cases)
    (auto simp: consumer_step_def leave_queue_def dest!: create_exit consume_one_exit split: if_splits)

lemma iter_drive:
  "consumer_iter e n s = Some (Ok s') \<Longrightarrow> g_exit (p_g s) = None \<Longrightarrow> (drive e)\<^sup>*\<^sup>* s s'"
proof (induction n arbitrary: s)
  case (Suc n)
  then obtain s1 where "consumer_step e s = Some (Ok s1)" "consumer_iter e n s1 = Some (Ok s')"
    by (auto split: option.splits res.splits)
  with Suc show ?case
    using consumer_exit [of e s s1] drive_consumer [of s e s1]
    by (metis converse_rtranclp_into_rtranclp)
qed simp

section \<open>Waking the consumer\<close>

text \<open>A running program: no shutdown, no pause, and a chat to forward to.\<close>

definition running :: "'re coll_env \<Rightarrow> i64 \<Rightarrow> 're FilterGroup \<Rightarrow> pstate \<Rightarrow> bool" where
  "running e i fg s =
     (pipe_inv s \<and> \<not> sd_sw s \<and> \<not> cs_pause (g_cmd (p_g s)) \<and> g_exit (p_g s) = None \<and>
      load_group (co_cmd e) (g_world (p_g s)) = Ok fg \<and>
      get_tgfid (ce_user (co_cmd e)) (g_world (p_g s)) = Ok i \<and> i \<noteq> - 1)"

lemma running_facts:
  assumes "running e i fg s"
  shows "\<not> sd_cons s" and "p_cpc s \<noteq> CDone" and "p_spc s \<in> {SLoop, STest, SBusy, SLock, SCount}"
    and "is_tgfid_valid (ce_user (co_cmd e)) (g_world (p_g s)) = Ok True"
    and "p_locked s = (\<exists>ms. p_cpc s = CRun ms)" and "\<not> p_do_csm s \<Longrightarrow> p_cpc s \<in> {CLoop, CWait}"
proof -
  have inv: "consumer_ok (p_cpc s) s" "flags_ok s" "\<not> sd_sw s"
    using assms by (simp_all add: running_def pipe_inv_def)
  show "\<not> sd_cons s" and "p_cpc s \<noteq> CDone" and "p_spc s \<in> {SLoop, STest, SBusy, SLock, SCount}"
    using inv(2,3) by (cases "p_spc s"; auto simp: flags_ok_def)+
  show "p_locked s = (\<exists>ms. p_cpc s = CRun ms)" and "\<not> p_do_csm s \<Longrightarrow> p_cpc s \<in> {CLoop, CWait}"
    using inv(1) \<open>p_cpc s \<noteq> CDone\<close> by (cases "p_cpc s"; simp)+
  show "is_tgfid_valid (ce_user (co_cmd e)) (g_world (p_g s)) = Ok True"
    using assms
    by (auto simp: running_def get_tgfid_def is_tgfid_valid_def with_stream_def split: option.splits)
qed

lemma running_switcher:
  assumes "running e i fg s" and "switcher_step s = Some s'"
  shows "running e i fg s' \<and> p_g s' = p_g s \<and> p_cpc s' = p_cpc s \<and> p_cnt s' = p_cnt s"
proof -
  have "pipe_inv s'" using pipe_inv_switcher assms by (auto simp: running_def)
  moreover have "p_g s' = p_g s \<and> p_cpc s' = p_cpc s \<and> p_cnt s' = p_cnt s \<and> sd_sw s' = sd_sw s"
    using assms(2) by (cases "p_spc s") (auto simp: switcher_step_def split: if_splits)
  ultimately show ?thesis using assms(1) by (simp add: running_def)
qed

text \<open>The steps that the switcher is away from raising \<open>do_csm_mq\<close>.\<close>

fun sw_away :: "spc \<Rightarrow> nat" where
  "sw_away SLock = 0"
| "sw_away SBusy = 1"
| "sw_away STest = 2"
| "sw_away SLoop = 3"
| "sw_away _ = 4"

lemma switcher_wakes:
  assumes "running e i fg s" and "\<not> p_do_csm s" and "g_mq (p_g s) \<noteq> []"
  shows "\<exists>s'. (drive e)\<^sup>*\<^sup>* s s' \<and> running e i fg s' \<and> p_do_csm s' \<and> p_g s' = p_g s \<and>
           p_cpc s' = p_cpc s \<and> p_cnt s' = p_cnt s"
  using assms
proof (induction "sw_away (p_spc s)" arbitrary: s rule: less_induct)
  case less
  note f = running_facts [OF less.prems(1)]
  have nl: "\<not> p_locked s" using f(5,6) less.prems(2) by auto
  have ex: "g_exit (p_g s) = None" "\<not> sd_sw s" "\<not> cs_pause (g_cmd (p_g s))"
    using less.prems(1) by (simp_all add: running_def)
  obtain s1 where s1: "switcher_step s = Some s1"
    "p_do_csm s1 \<or> \<not> p_do_csm s1 \<and> sw_away (p_spc s1) < sw_away (p_spc s)"
    using f(3) nl ex less.prems(2,3) by (auto simp: switcher_step_def)
  note r = running_switcher [OF less.prems(1) s1(1)]
  have d: "drive e s s1" using drive_switcher ex(1) s1(1) by blast
  show ?case
  proof (cases "p_do_csm s1")
    case True
    with r d show ?thesis by (intro exI [of _ s1]) auto
  next
    case False
    then obtain s' where "(drive e)\<^sup>*\<^sup>* s1 s'" "running e i fg s'" "p_do_csm s'" "p_g s' = p_g s1"
        "p_cpc s' = p_cpc s1" "p_cnt s' = p_cnt s1"
      using less.hyps [of s1] s1(2) r less.prems(3) by auto
    with r d show ?thesis by (intro exI [of _ s']) (auto intro: converse_rtranclp_into_rtranclp)
  qed
qed

section \<open>One round of the consumer\<close>

definition drained :: "'re coll_env \<Rightarrow> i64 \<Rightarrow> 're FilterGroup \<Rightarrow> TgMsg list \<Rightarrow> pstate \<Rightarrow> pstate \<Rightarrow> bool" where
  "drained e i fg ms s s' =
     (g_mq (p_g s') = [] \<and> \<not> p_locked s' \<and>
      p_cnt s' = p_cnt s + of_nat (length (accepted e fg ms)) \<and>
      map snd (c_sent (g_coll (p_g s'))) = map snd (c_sent (g_coll (p_g s))) @
        forwards e i (number_from (p_cnt s) (accepted e fg ms)))"

lemma drained_cong:
  "drained e i fg ms s s' \<Longrightarrow> p_g s0 = p_g s \<Longrightarrow> p_cnt s0 = p_cnt s \<Longrightarrow> drained e i fg ms s0 s'"
  by (simp add: drained_def)

lemma run_drains:
  assumes "running e i fg s" and "p_cpc s = CRun ms"
  shows "\<exists>s'. (drive e)\<^sup>*\<^sup>* s s' \<and> drained e i fg ms s s'"
  using consumer_iter_run [of e s fg i ms] assms running_facts(1) [OF assms(1)]
    iter_drive [of e "Suc (length ms)" s]
  by (auto simp: running_def drained_def)

text \<open>From wherever it is, a woken consumer takes the queue.\<close>

fun cs_away :: "cpc \<Rightarrow> nat" where
  "cs_away CLock = 0"
| "cs_away CCheck = 1"
| "cs_away CWait = 2"
| "cs_away CLoop = 3"
| "cs_away _ = 4"

lemma running_consumer:
  assumes "running e i fg s" and "consumer_step e s = Some (Ok s')" and "p_g s' = p_g s"
  shows "running e i fg s'"
proof -
  have "pipe_inv s'" using pipe_inv_consumer assms by (auto simp: running_def)
  moreover have "sd_sw s' = sd_sw s" using consumer_frame [OF assms(2)] by simp
  ultimately show ?thesis using assms(1,3) by (simp add: running_def)
qed

lemma woken_drains:
  assumes "running e i fg s" and "p_do_csm s" and "g_mq (p_g s) \<noteq> []"
    and "p_cpc s \<in> {CLoop, CWait, CCheck, CLock}"
  shows "\<exists>s'. (drive e)\<^sup>*\<^sup>* s s' \<and> drained e i fg (g_mq (p_g s)) s s'"
  using assms
proof (induction "cs_away (p_cpc s)" arbitrary: s rule: less_induct)
  case less
  note f = running_facts [OF less.prems(1)]
  have nl: "\<not> p_locked s" using f(5) less.prems(4) by auto
  have ex: "g_exit (p_g s) = None" using less.prems(1) by (simp add: running_def)
  obtain s1 where s1: "consumer_step e s = Some (Ok s1)" "p_g s1 = p_g s" "p_cnt s1 = p_cnt s"
    "p_cpc s1 = CRun (g_mq (p_g s)) \<or>
     cs_away (p_cpc s1) < cs_away (p_cpc s) \<and> p_cpc s1 \<in> {CLoop, CWait, CCheck, CLock} \<and> p_do_csm s1"
    using less.prems(2-4) f(1,4) nl by (auto simp: consumer_step_def)
  have r: "running e i fg s1" using running_consumer [OF less.prems(1) s1(1,2)] .
  have d: "drive e s s1" using drive_consumer ex s1(1) by blast
  have "\<exists>s'. (drive e)\<^sup>*\<^sup>* s1 s' \<and> drained e i fg (g_mq (p_g s)) s1 s'"
    using s1(4) run_drains [OF r] less.hyps [of s1] r less.prems(3) s1(2) by auto
  then show ?case
    using d drained_cong [of e i fg _ s1 _ s] s1(2,3)
    by (metis converse_rtranclp_into_rtranclp)
qed

lemma idle_drains:
  assumes "running e i fg s" and "g_mq (p_g s) \<noteq> []" and "\<nexists>ms. p_cpc s = CRun ms"
  shows "\<exists>s'. (drive e)\<^sup>*\<^sup>* s s' \<and> drained e i fg (g_mq (p_g s)) s s'"
proof -
  have wake: "\<exists>s'. (drive e)\<^sup>*\<^sup>* t s' \<and> drained e i fg (g_mq (p_g t)) t s'"
    if r: "running e i fg t" and ne: "g_mq (p_g t) \<noteq> []" and c: "p_cpc t \<in> {CLoop, CWait, CCheck, CLock}" for t
  proof (cases "p_do_csm t")
    case True
    with woken_drains [OF r _ ne c] show ?thesis by blast
  next
    case False
    obtain t' where t': "(drive e)\<^sup>*\<^sup>* t t'" "running e i fg t'" "p_do_csm t'" "p_g t' = p_g t"
      "p_cpc t' = p_cpc t" "p_cnt t' = p_cnt t"
      using switcher_wakes [OF r False ne] by blast
    obtain s' where "(drive e)\<^sup>*\<^sup>* t' s'" "drained e i fg (g_mq (p_g t')) t' s'"
      using woken_drains [OF t'(2,3)] ne c t'(4,5) by auto
    with t' show ?thesis using drained_cong [of e i fg _ t' s' t] by (metis rtranclp_trans)
  qed
  show ?thesis
  proof (cases "p_cpc s = CEnd")
    case True
    let ?t = "s\<lparr>it_cnt_consumer := it_cnt_consumer s + 1, p_do_csm := False, p_cpc := CLoop\<rparr>"
    have st: "consumer_step e s = Some (Ok ?t)" using True by (simp add: consumer_step_def)
    have "drive e s ?t" using drive_consumer [OF _ st] assms(1) by (simp add: running_def)
    moreover have "running e i fg ?t" using running_consumer [OF assms(1) st] by simp
    moreover obtain s' where "(drive e)\<^sup>*\<^sup>* ?t s'" "drained e i fg (g_mq (p_g ?t)) ?t s'"
      using wake [of ?t] assms(2) \<open>running e i fg ?t\<close> by auto
    moreover from this(2) have "drained e i fg (g_mq (p_g s)) s s'"
      by (simp add: drained_def)
    ultimately show ?thesis by (blast intro: converse_rtranclp_into_rtranclp)
  next
    case False
    with assms(3) running_facts(2) [OF assms(1)] have "p_cpc s \<in> {CLoop, CWait, CCheck, CLock}"
      by (cases "p_cpc s") auto
    with wake assms(1,2) show ?thesis by blast
  qed
qed

text \<open>
  C9: No message is stuck while the program runs. In every state that an interleaving of the workers
  reaches without a shutdown or a pause, with a chat to forward to, consumer and switcher alone can take steps after which the
  queue is empty and unlocked and everything of it that the stored filters accept has been sent, once
  and in order; so neither of them ever waits for a wake-up that has been lost. (Of a queue that the
  consumer is walking already, the rest.)
\<close>

theorem queue_can_drain:
  assumes "pipe_reach e g s" and "\<not> sd_sw s" and "\<not> cs_pause (g_cmd (p_g s))"
    and "g_exit (p_g s) = None" and "load_group (co_cmd e) (g_world (p_g s)) = Ok fg"
    and "get_tgfid (ce_user (co_cmd e)) (g_world (p_g s)) = Ok i" and "i \<noteq> - 1"
  shows "\<exists>s'. (drive e)\<^sup>*\<^sup>* s s' \<and> pipe_reach e g s' \<and>
           drained e i fg (case p_cpc s of CRun ms \<Rightarrow> ms | _ \<Rightarrow> g_mq (p_g s)) s s'"
proof -
  have r: "running e i fg s"
    using assms pipe_inv_reach by (auto simp: running_def)
  have reach: "(drive e)\<^sup>*\<^sup>* s s' \<Longrightarrow> pipe_reach e g s'" for s'
    by (induction rule: rtranclp_induct) (blast intro: assms(1) pipe_next drive_pipe)+
  have "\<exists>s'. (drive e)\<^sup>*\<^sup>* s s' \<and> drained e i fg (case p_cpc s of CRun ms \<Rightarrow> ms | _ \<Rightarrow> g_mq (p_g s)) s s'"
  proof (cases "\<exists>ms. p_cpc s = CRun ms")
    case True
    with run_drains [OF r] show ?thesis by auto
  next
    case False
    then have pend: "(case p_cpc s of CRun ms \<Rightarrow> ms | _ \<Rightarrow> g_mq (p_g s)) = g_mq (p_g s)"
      by (cases "p_cpc s") auto
    show ?thesis
    proof (cases "g_mq (p_g s) = []")
      case empty: True
      have "drained e i fg [] s s"
        using empty False running_facts(5) [OF r] by (simp add: drained_def accepted_def forwards_def)
      with empty pend show ?thesis by (intro exI [of _ s]) simp
    next
      case ne: False
      show ?thesis unfolding pend using idle_drains [OF r ne] False by blast
    qed
  qed
  with reach show ?thesis by blast
qed

lemma queue_can_drain_witness:
  "\<exists>s s'. pipe_reach demo_coll_env demo_gstate s \<and> length (g_mq (p_g s)) = 1 \<and>
     (drive demo_coll_env)\<^sup>*\<^sup>* s s' \<and> g_mq (p_g s') = []"
proof -
  let ?m = "\<lparr>msg_chat_id = 7, msg_sender_id = messageSenderChat 7, msg_content = messageText ''x'', msg_date = 0\<rparr>"
  let ?fg = "\<lparr>i_prev_visited = 0, filters = [empty_filter]\<rparr> :: string FilterGroup"
  let ?s0 = "start_workers demo_gstate" and ?e = demo_coll_env
  obtain g' where g': "process_update ?e (updateNewMessage ?m) demo_gstate = Ok g'" "g_cmd g' = g_cmd demo_gstate"
    "g_exit g' = None" "length (g_mq g') = 1"
    using intake_all [OF demo_tgfid, of "[?m]"] by (auto simp: demo_gstate_def simp del: taken.simps)
  let ?ob = "Some (updateNewMessage ?m)"
  let ?s1 = "?s0\<lparr>p_ppc := PWait\<rparr>" and ?s2 = "?s0\<lparr>p_ppc := PFetch\<rparr>"
  let ?s3 = "?s0\<lparr>p_ppc := PBusy 0 ?ob\<rparr>" and ?s4 = "?s0\<lparr>p_g := g', it_cnt_producer := 1, p_ppc := PLoop\<rparr>"
  have s0: "p_g ?s0 = demo_gstate" "g_exit demo_gstate = None" "p_ppc ?s0 = PLoop" "\<not> sd_prod ?s0"
    "\<not> p_do_csm ?s0" "\<not> p_locked ?s0" "it_cnt_producer ?s0 = 0" "p_cpc ?s0 = CLoop" "\<not> sd_sw ?s0"
    by (simp_all add: start_workers_def demo_gstate_def)
  have f: "fetch_updates ?e (0, ?ob) demo_gstate = Ok g'"
    using g'(1) by (simp add: fetch_updates_def process_response_def)
  have "pipe_reach ?e demo_gstate ?s1"
    by (rule pipe_next [OF pipe_start], rule pipe_step.producer [where response = "(0, ?ob)"])
      (simp_all add: s0 producer_step_def)
  then have "pipe_reach ?e demo_gstate ?s2"
    by (rule pipe_next, intro pipe_step.producer [where response = "(0, ?ob)"])
      (simp_all add: s0 producer_step_def)
  then have "pipe_reach ?e demo_gstate ?s3"
    by (rule pipe_next, intro pipe_step.producer [where response = "(0, ?ob)"])
      (simp_all add: s0 producer_step_def)
  then have reach: "pipe_reach ?e demo_gstate ?s4"
    by (rule pipe_next, intro pipe_step.producer [where response = "(0, ?ob)"])
      (simp_all add: s0 producer_step_def f)
  have pg: "p_g ?s4 = g'" "p_cpc ?s4 = CLoop" "\<not> sd_sw ?s4" using s0 by simp_all
  have cmd: "\<not> cs_pause (g_cmd g')" "g_world g' = g_world demo_gstate"
    using g'(2) by (simp_all add: demo_gstate_def demo_cstate_def)
  have fg: "load_group (co_cmd ?e) (g_world demo_gstate) = Ok ?fg"
    using demo_facts(2) by (simp add: demo_coll_env_def demo_gstate_def demo_cstate_def)
  have "(0 :: i64) \<noteq> - 1" by simp
  from queue_can_drain [OF reach pg(3), unfolded pg cmd(2), OF cmd(1) g'(3) fg demo_tgfid this]
  obtain s' where "(drive ?e)\<^sup>*\<^sup>* ?s4 s'" "g_mq (p_g s') = []" by (auto simp: drained_def)
  with reach g'(4) pg(1) show ?thesis by (intro exI [of _ ?s4] exI [of _ s']) simp
qed

end
