(* ===== verification/TdAuth.thy ===== *)
theory TdAuth
  imports TdColl
begin

text \<open>
  \<open>src/src/td_auth.hh\<close> and \<open>td_auth.cc\<close>: logging in. A second client of the Telegram
  library answers the authorization states it reports by asking the user on the standard input, and
  stores the credentials when the library accepts them. The standard input is a string that is
  consumed; prompts are left out.
\<close>

section \<open>Standard input\<close>

text \<open>\<open>getline (cin, s)\<close>: up to the end of the line, which is taken as well.\<close>

definition getline :: "string \<Rightarrow> string \<times> string" where
  "getline inp =
     (takeWhile (\<lambda>c. c \<noteq> CHR 0x0A) inp, drop 1 (dropWhile (\<lambda>c. c \<noteq> CHR 0x0A) inp))"

text \<open>\<open>cin >> s\<close>: skips white space, then up to the next, which stays.\<close>

definition read_word :: "string \<Rightarrow> string \<times> string" where
  "read_word inp =
     (let r = dropWhile is_space inp
      in (takeWhile (\<lambda>c. \<not> is_space c) r, dropWhile (\<lambda>c. \<not> is_space c) r))"

section \<open>State\<close>

record TdAuth =
  a_sent :: "(u64 \<times> Function) list"
  a_auth_stat :: "AuthorizationState option"
  a_is_auth :: bool
  a_curr_qry_id :: u64
  a_cb :: "(u64 \<times> bool) list"
  a_buckets :: nat
  a_bkt :: "nat \<Rightarrow> nat \<Rightarrow> nat"
  a_apiid :: i32
  a_apihash :: string
  a_use_our_api :: bool
  a_world :: world
  a_input :: string
  a_is_login :: bool
  a_is_tdlib_closed :: bool
  a_log :: "string list"
  a_exit :: "int option"

text \<open>
  The callbacks are an \<open>unordered_map\<close>: its entries and the number of its buckets. An entry
  \<open>True\<close> is the callback of an authorization request, \<open>False\<close> the one of the destructor, which
  does nothing but log. \<open>a_bkt b n\<close> is what the standard library makes of \<open>b\<close> buckets when the
  table is to hold \<open>n\<close> entries; changing the number of buckets is a rehash, which makes every
  iterator into the table invalid.
\<close>

definition auth_emplace :: "u64 \<Rightarrow> bool \<Rightarrow> TdAuth \<Rightarrow> TdAuth" where
  "auth_emplace q cb a =
     (if map_of (a_cb a) q \<noteq> None then a
      else a\<lparr>a_cb := (q, cb) # a_cb a,
             a_buckets := a_bkt a (a_buckets a) (Suc (length (a_cb a)))\<rparr>)"

definition auth_send ::
  "Function \<Rightarrow> bool option \<Rightarrow> TdAuth \<Rightarrow> TdAuth" where
  "auth_send tdfn cbfn a =
     (let query_id = a_curr_qry_id a + 1; a1 = a\<lparr>a_curr_qry_id := query_id\<rparr>;
          a2 = (case cbfn of
                  None \<Rightarrow> a1
                | Some cb \<Rightarrow> auth_emplace query_id cb a1)
      in a2\<lparr>a_sent := a_sent a2 @ [(query_id, tdfn)]\<rparr>)"

definition new_TdAuth :: "(nat \<Rightarrow> nat \<Rightarrow> nat) \<Rightarrow> bool \<Rightarrow> bool \<Rightarrow> world \<Rightarrow> string \<Rightarrow> TdAuth" where
  "new_TdAuth bkt useProvidedApiPass is_auth0 w inp =
     (let a = \<lparr>a_sent = [], a_auth_stat = None, a_is_auth = is_auth0, a_curr_qry_id = 0,
               a_cb = [], a_buckets = 1, a_bkt = bkt, a_apiid = 0, a_apihash = [], a_use_our_api = useProvidedApiPass,
               a_world = w, a_input = inp, a_is_login = False, a_is_tdlib_closed = False,
               a_log = [], a_exit = None\<rparr>
      in auth_send (setOption ''use_storage_optimizer'' True) None
           (auth_send (getOption ''version'') None a))"

section \<open>Authorization states\<close>

definition our_api_id :: i32 where
  "our_api_id = or (push_bit 0x10 0x01b6) 0x7787"

definition our_api_hash :: string where
  "our_api_hash = ''5e4d011ebd149a418a5a1b4d55d53f70''"

text \<open>Where the credentials come from: the data directory, the built-in ones, or the user.\<close>

definition credentials :: "UserData \<Rightarrow> TdAuth \<Rightarrow> ((i32 \<times> string) \<times> string) res" where
  "credentials u a =
     res_bind (get_auth_hint u (a_world a)) (\<lambda>hint.
       if hint then
         res_bind (get_api_id u (a_world a)) (\<lambda>i.
         res_map (\<lambda>h. ((i, h), a_input a)) (get_api_hash u (a_world a)))
       else if a_use_our_api a then Ok ((our_api_id, our_api_hash), a_input a)
       else
         (let (may_api_id, inp1) = read_word (a_input a);
              api_id = (if is_valid_int32 may_api_id then sstr_to_int32 may_api_id else 0);
              (api_hash, inp2) = read_word inp1
          in Ok ((api_id, api_hash), inp2)))"

definition store_login :: "UserData \<Rightarrow> TdAuth \<Rightarrow> TdAuth res" where
  "store_login u a =
     res_bind (set_api_id u (a_apiid a) (a_world a)) (\<lambda>w1.
     res_bind (set_api_hash u (a_apihash a) w1) (\<lambda>w2.
     res_map (\<lambda>w3. a\<lparr>a_world := w3\<rparr>) (set_auth_hint u True w2)))"

definition auth_state_update :: "UserData \<Rightarrow> bool \<Rightarrow> TdAuth \<Rightarrow> TdAuth res" where
  "auth_state_update u ndebug a =
     (case a_auth_stat a of
        None \<Rightarrow> Undef
      | Some st \<Rightarrow>
          (case st of
             authorizationStateReady \<Rightarrow>
               res_map (\<lambda>a'. a'\<lparr>a_is_login := True\<rparr>) (store_login u (a\<lparr>a_is_auth := True\<rparr>))
           | authorizationStateClosing \<Rightarrow> Ok a
           | authorizationStateClosed \<Rightarrow>
               Ok (a\<lparr>a_log := a_log a @ [''Closed''], a_is_auth := False, a_is_tdlib_closed := True\<rparr>)
           | authorizationStateWaitPhoneNumber \<Rightarrow>
               (let (phone, inp) = getline (a_input a)
                in Ok (auth_send (setAuthenticationPhoneNumber (rmspc phone)) (Some True) (a\<lparr>a_input := inp\<rparr>)))
           | authorizationStateWaitCode \<Rightarrow>
               (let (code, inp) = read_word (a_input a)
                in Ok (auth_send (checkAuthenticationCode code) (Some True) (a\<lparr>a_input := inp\<rparr>)))
           | authorizationStateWaitPassword \<Rightarrow>
               (let (code, inp) = read_word (a_input a)
                in Ok (auth_send (checkAuthenticationPassword code) (Some True) (a\<lparr>a_input := inp\<rparr>)))
           | authorizationStateWaitTdlibParameters \<Rightarrow>
               res_map (\<lambda>((api_id, api_hash), inp).
                   auth_send (setTdlibParameters (path_tddata u) api_id api_hash ''en'' (TF_DEV ndebug) TF_VER)
                     (Some True) (a\<lparr>a_input := inp, a_apiid := api_id, a_apihash := api_hash\<rparr>))
                 (credentials u a)
           | otherAuthorizationState i \<Rightarrow>
               Ok (a\<lparr>a_log := a_log a @ [''ERROR: unknown event {}'',
                       ''Fatal errors. Please submit a bug report.''], a_exit := Some 10\<rparr>)))"

text \<open>The chain of \<open>find\<close> on the message of an error; \<open>None\<close> is the last branch.\<close>

definition auth_error_text :: "string \<Rightarrow> string option" where
  "auth_error_text txt =
     (if str_find ''PHONE_NUMBER_INVALID'' txt \<noteq> None then Some ''The phone number is invalid''
      else if str_find ''PHONE_CODE_HASH_EMPTY'' txt \<noteq> None then Some ''phone_code_hash is missing''
      else if str_find ''PHONE_CODE_EMPTY'' txt \<noteq> None then Some ''phone_code is missing''
      else if str_find ''PHONE_CODE_EXPIRED'' txt \<noteq> None then Some ''The confirmation code has expired''
      else if str_find ''PHONE_CODE_INVALID'' txt \<noteq> None then Some ''The login code is invalid''
      else if str_find ''API_ID_INVALID'' txt \<noteq> None then
        Some ''The api_id/api_hash combination is invalid(restart might be needed)''
      else if str_find ''PASSWORD_HASH_INVALID'' txt \<noteq> None then Some ''Incorrect password''
      else if str_find ''PHONE_NUMBER_UNOCCUPIED'' txt \<noteq> None then
        Some ''The phone number is not yet being used''
      else if str_find ''Valid api_id must be provided. Can be obtained at'' txt \<noteq> None then
        Some ''Invalid API ID''
      else None)"

definition auth_callback :: "UserData \<Rightarrow> bool \<Rightarrow> Object \<Rightarrow> TdAuth \<Rightarrow> TdAuth res" where
  "auth_callback u ndebug ob a =
     (case ob of
        objOk \<Rightarrow> Ok a
      | objError code txt \<Rightarrow>
          (case auth_error_text txt of
             Some l \<Rightarrow> auth_state_update u ndebug (a\<lparr>a_log := a_log a @ [l]\<rparr>)
           | None \<Rightarrow>
               Ok (a\<lparr>a_log := a_log a @ [''ERROR: {}'' @ txt,
                       ''Fatal errors. Please submit a bug report.''], a_exit := Some 11\<rparr>))
      | _ \<Rightarrow> Ok (a\<lparr>a_log := a_log a @ [''ERROR: unexpected auth callback id:{}'']\<rparr>))"

section \<open>Responses\<close>

definition auth_process_update :: "UserData \<Rightarrow> bool \<Rightarrow> Object \<Rightarrow> TdAuth \<Rightarrow> TdAuth res" where
  "auth_process_update u ndebug ob a =
     (case ob of
        updateAuthorizationState st \<Rightarrow> auth_state_update u ndebug (a\<lparr>a_auth_stat := Some st\<rparr>)
      | _ \<Rightarrow> Ok a)"

text \<open>
  \<open>erase (it)\<close> after the callback has run: \<open>it\<close> was found before, and the callback may have
  inserted into the table; with an iterator that is no longer valid the behaviour is undefined.
\<close>

definition auth_erase_found :: "nat \<Rightarrow> u64 \<Rightarrow> TdAuth \<Rightarrow> TdAuth res" where
  "auth_erase_found buckets_then q a =
     (if a_buckets a \<noteq> buckets_then then Undef
      else Ok (a\<lparr>a_cb := filter (\<lambda>c. fst c \<noteq> q) (a_cb a)\<rparr>))"

definition auth_process_response :: "UserData \<Rightarrow> bool \<Rightarrow> u64 \<times> Object option \<Rightarrow> TdAuth \<Rightarrow> TdAuth res" where
  "auth_process_response u ndebug response a =
     (case snd response of
        None \<Rightarrow> Ok a
      | Some ob \<Rightarrow>
          if fst response = 0 then auth_process_update u ndebug ob a
          else case map_of (a_cb a) (fst response) of
                 None \<Rightarrow> Ok a
               | Some cb \<Rightarrow>
                   res_bind
                     (if cb then auth_callback u ndebug ob a
                      else Ok (if ob = objOk then a\<lparr>a_log := a_log a @ [''Closing...'']\<rparr> else a))
                     (auth_erase_found (a_buckets a) (fst response)))"

text \<open>
  \<open>loop\<close> and the loop of the destructor over the responses of the library: \<open>None\<close> says that the
  responses ran out before the flag was up. \<open>exit\<close> ends the program.
\<close>

fun auth_loop ::
  "UserData \<Rightarrow> bool \<Rightarrow> (TdAuth \<Rightarrow> bool) \<Rightarrow> (u64 \<times> Object option) list \<Rightarrow> TdAuth \<Rightarrow> TdAuth res option" where
  "auth_loop u ndebug flag rs a =
     (if flag a \<or> a_exit a \<noteq> None then Some (Ok a)
      else case rs of
             [] \<Rightarrow> None
           | r # rs' \<Rightarrow>
               (case auth_process_response u ndebug r a of
                  Ok a' \<Rightarrow> auth_loop u ndebug flag rs' a'
                | Undef \<Rightarrow> Some Undef))"

declare auth_loop.simps [simp del]

definition TdAuth_loop :: "UserData \<Rightarrow> bool \<Rightarrow> (u64 \<times> Object option) list \<Rightarrow> TdAuth \<Rightarrow> TdAuth res option" where
  "TdAuth_loop u ndebug rs a = auth_loop u ndebug a_is_login rs a"

definition TdAuth_dtor :: "UserData \<Rightarrow> bool \<Rightarrow> (u64 \<times> Object option) list \<Rightarrow> TdAuth \<Rightarrow> TdAuth res option" where
  "TdAuth_dtor u ndebug rs a =
     auth_loop u ndebug a_is_tdlib_closed rs (auth_send closeRequest (Some False) a)"

section \<open>What a login stores\<close>

text \<open>The credentials of the last \<open>setTdlibParameters\<close> request; zero and empty before the first.\<close>

definition last_params :: "(u64 \<times> Function) list \<Rightarrow> i32 \<times> string" where
  "last_params sent =
     foldl (\<lambda>p (q, f). case f of setTdlibParameters d i h l dev v \<Rightarrow> (i, h) | _ \<Rightarrow> p) (0, []) sent"

lemma last_params_simps [simp]:
  "last_params [] = (0, [])"
  "last_params (l @ [(q, f)]) =
     (case f of setTdlibParameters d i h l dev v \<Rightarrow> (i, h) | _ \<Rightarrow> last_params l)"
  by (simp_all add: last_params_def split: Function.split)

definition login_update :: "i32 \<times> string \<Rightarrow> settings \<Rightarrow> settings" where
  "login_update p s =
     abs_update (SetAuthHint True) (abs_update (SetApiHash (snd p)) (abs_update (SetApiId (fst p)) s))"

definition auth_inv :: "UserData \<Rightarrow> world \<Rightarrow> TdAuth \<Rightarrow> bool" where
  "auth_inv u w a =
     ((a_auth_stat a = None \<longrightarrow> (\<forall>q. map_of (a_cb a) q \<noteq> Some True)) \<and>
      last_params (a_sent a) = (a_apiid a, a_apihash a) \<and>
      data_ok u (a_world a) \<and>
      (if a_is_login a then view u (a_world a) = res_map (login_update (a_apiid a, a_apihash a)) (view u w)
       else a_world a = w))"

lemma auth_emplace_simps [simp]:
  "a_auth_stat (auth_emplace q c a) = a_auth_stat a" "a_world (auth_emplace q c a) = a_world a"
  "a_is_login (auth_emplace q c a) = a_is_login a" "a_apiid (auth_emplace q c a) = a_apiid a"
  "a_apihash (auth_emplace q c a) = a_apihash a" "a_input (auth_emplace q c a) = a_input a"
  "a_sent (auth_emplace q c a) = a_sent a" "a_exit (auth_emplace q c a) = a_exit a"
  "a_bkt (auth_emplace q c a) = a_bkt a" "a_curr_qry_id (auth_emplace q c a) = a_curr_qry_id a"
  by (simp_all add: auth_emplace_def)

lemma auth_send_simps [simp]:
  "a_auth_stat (auth_send f c a) = a_auth_stat a" "a_world (auth_send f c a) = a_world a"
  "a_is_login (auth_send f c a) = a_is_login a" "a_apiid (auth_send f c a) = a_apiid a"
  "a_apihash (auth_send f c a) = a_apihash a" "a_input (auth_send f c a) = a_input a"
  "a_sent (auth_send f c a) = a_sent a @ [(a_curr_qry_id a + 1, f)]"
  "a_exit (auth_send f c a) = a_exit a" "a_bkt (auth_send f c a) = a_bkt a"
  "a_curr_qry_id (auth_send f c a) = a_curr_qry_id a + 1"
  by (simp_all add: auth_send_def Let_def split: option.split)

lemma auth_send_cb:
  "map_of (a_cb (auth_send f c a)) q = Some b \<Longrightarrow> map_of (a_cb a) q = Some b \<or> c = Some b"
  by (auto simp: auth_send_def auth_emplace_def Let_def split: option.splits if_splits)

lemma store_login_view:
  assumes "data_ok u (a_world a)"
  shows "\<exists>w'. store_login u a = Ok (a\<lparr>a_world := w'\<rparr>) \<and> data_ok u w' \<and>
    view u w' = res_map (login_update (a_apiid a, a_apihash a)) (view u (a_world a))"
proof -
  obtain w1 where w1: "set_api_id u (a_apiid a) (a_world a) = Ok w1" "data_ok u w1"
    "view u w1 = res_map (abs_update (SetApiId (a_apiid a))) (view u (a_world a))"
    using update_view [OF assms, of "SetApiId (a_apiid a)"] by auto
  obtain w2 where w2: "set_api_hash u (a_apihash a) w1 = Ok w2" "data_ok u w2"
    "view u w2 = res_map (abs_update (SetApiHash (a_apihash a))) (view u w1)"
    using update_view [OF w1(2), of "SetApiHash (a_apihash a)"] by auto
  obtain w3 where w3: "set_auth_hint u True w2 = Ok w3" "data_ok u w3"
    "view u w3 = res_map (abs_update (SetAuthHint True)) (view u w2)"
    using update_view [OF w2(2), of "SetAuthHint True"] by auto
  have "view u w3 = res_map (login_update (a_apiid a, a_apihash a)) (view u (a_world a))"
    unfolding w3(3) w2(3) w1(3) by (cases "view u (a_world a)") (simp_all add: login_update_def)
  then have "store_login u a = Ok (a\<lparr>a_world := w3\<rparr>) \<and> data_ok u w3 \<and>
      view u w3 = res_map (login_update (a_apiid a, a_apihash a)) (view u (a_world a))"
    using w1(1) w2(1) w3(1,2) by (simp add: store_login_def)
  then show ?thesis by blast
qed

lemma credentials_total:
  assumes "data_ok u (a_world a)"
  shows "\<exists>i h inp. credentials u a = Ok ((i, h), inp)"
proof -
  obtain h i x where "get_auth_hint u (a_world a) = Ok h" "get_api_id u (a_world a) = Ok i"
    "get_api_hash u (a_world a) = Ok x"
    using view_eq [OF assms] unfolding view_def by auto
  then show ?thesis by (simp add: credentials_def case_prod_beta Let_def)
qed

lemma auth_inv_send:
  assumes "auth_inv u w a" and "a_auth_stat a \<noteq> None \<or> c \<noteq> Some True"
    and "case f of setTdlibParameters d i h l dev v \<Rightarrow> i = a_apiid a \<and> h = a_apihash a | _ \<Rightarrow> True"
  shows "auth_inv u w (auth_send f c a)"
  using assms auth_send_cb [of f c a _ True]
  by (auto simp: auth_inv_def split: Function.splits)

lemma auth_inv_state_update:
  assumes inv: "auth_inv u w a" and nl: "\<not> a_is_login a" and st: "a_auth_stat a = Some st"
  shows "\<exists>a'. auth_state_update u nd a = Ok a' \<and> auth_inv u w a'"
proof (cases st)
  case authorizationStateReady
  have ok: "data_ok u (a_world a)" and eq: "a_world a = w"
    using inv nl by (auto simp: auth_inv_def)
  obtain w' where "store_login u (a\<lparr>a_is_auth := True\<rparr>) = Ok (a\<lparr>a_is_auth := True, a_world := w'\<rparr>)"
    "data_ok u w'" "view u w' = res_map (login_update (a_apiid a, a_apihash a)) (view u w)"
    using store_login_view [of u "a\<lparr>a_is_auth := True\<rparr>"] ok eq by auto
  with inv st show ?thesis
    by (simp add: auth_state_update_def auth_inv_def authorizationStateReady)
next
  case authorizationStateWaitTdlibParameters
  obtain i h inp where c: "credentials u a = Ok ((i, h), inp)"
    using credentials_total [of u a] inv by (auto simp: auth_inv_def)
  show ?thesis
    using inv nl st auth_send_cb [of _ "Some True" "a\<lparr>a_input := inp, a_apiid := i, a_apihash := h\<rparr>"]
    by (auto simp: auth_state_update_def authorizationStateWaitTdlibParameters c auth_inv_def)
qed (use inv nl st in \<open>auto simp: auth_state_update_def auth_inv_def getline_def read_word_def
  case_prod_beta Let_def\<close>)

text \<open>
  What the standard library promises of the table: once something is in it there are at least \<open>B\<close>
  buckets, and an insertion that leaves at most one entry for each bucket keeps them.
\<close>

definition bucket_law :: "nat \<Rightarrow> (nat \<Rightarrow> nat \<Rightarrow> nat) \<Rightarrow> bool" where
  "bucket_law B bkt = (\<forall>b n. B \<le> bkt b n \<and> (B \<le> b \<and> n \<le> b \<longrightarrow> bkt b n = b))"

definition room :: "nat \<Rightarrow> nat \<Rightarrow> TdAuth \<Rightarrow> bool" where
  "room B k a =
     (bucket_law B (a_bkt a) \<and> length (a_cb a) \<le> k \<and> (a_cb a \<noteq> [] \<longrightarrow> B \<le> a_buckets a))"

text \<open>An authorization state is answered with at most one request, whose callback is entered.\<close>

definition same_table :: "TdAuth \<Rightarrow> TdAuth \<Rightarrow> bool" where
  "same_table a a' = (a_bkt a' = a_bkt a \<and> a_cb a' = a_cb a \<and> a_buckets a' = a_buckets a)"

definition one_entry :: "TdAuth \<Rightarrow> TdAuth \<Rightarrow> bool" where
  "one_entry a a' =
     (same_table a a' \<or>
      a_bkt a' = a_bkt a \<and>
      (\<exists>q. a_cb a' = (q, True) # a_cb a \<and> a_buckets a' = a_bkt a (a_buckets a) (Suc (length (a_cb a)))))"

lemma one_entry_refl [simp]: "one_entry a a"
  by (simp add: one_entry_def same_table_def)

lemma send_one_entry: "one_entry a (auth_send f (Some True) (a\<lparr>a_input := inp\<rparr>))"
  "one_entry a (auth_send f (Some True) (a\<lparr>a_input := inp, a_apiid := i, a_apihash := h\<rparr>))"
  by (auto simp: one_entry_def same_table_def auth_send_def auth_emplace_def Let_def)

lemma state_update_entry:
  assumes "auth_state_update u nd a = Ok a'"
  shows "one_entry a a'"
proof -
  have same: "one_entry a b" if "same_table a b" for b using that by (simp add: one_entry_def)
  have "same_table a (a\<lparr>a_is_auth := x\<rparr>)" "same_table a (a\<lparr>a_log := l, a_exit := ex\<rparr>)" "same_table a a"
    "same_table a (a\<lparr>a_log := l, a_is_auth := x, a_is_tdlib_closed := y\<rparr>)" for x y l ex
    by (simp_all add: same_table_def)
  moreover have "same_table a (b\<lparr>a_is_login := True\<rparr>)" if "store_login u (a\<lparr>a_is_auth := True\<rparr>) = Ok b" for b
    using that by (auto simp: store_login_def same_table_def)
  ultimately show ?thesis
    using assms
    by (auto simp: auth_state_update_def same send_one_entry case_prod_beta Let_def
        split: option.splits AuthorizationState.splits)
qed

lemma one_entry_room:
  assumes "one_entry a a'" and "room B k a"
  shows "room B (Suc k) a'" and "a_cb a \<noteq> [] \<Longrightarrow> k < B \<Longrightarrow> a_buckets a' = a_buckets a"
    and "a_cb a' = a_cb a \<or> (\<exists>c. a_cb a' = c # a_cb a)"
proof -
  show "room B (Suc k) a'"
    using assms by (auto simp: one_entry_def same_table_def room_def bucket_law_def)
  show "a_buckets a' = a_buckets a" if "a_cb a \<noteq> []" "k < B"
  proof -
    have "B \<le> a_buckets a" "Suc (length (a_cb a)) \<le> a_buckets a"
      using assms(2) that by (auto simp: room_def)
    then show ?thesis
      using assms by (auto simp: one_entry_def same_table_def room_def bucket_law_def)
  qed
  show "a_cb a' = a_cb a \<or> (\<exists>c. a_cb a' = c # a_cb a)"
    using assms(1) by (auto simp: one_entry_def same_table_def)
qed

lemma callback_entry: "auth_callback u nd ob a = Ok a' \<Longrightarrow> one_entry a a'"
  unfolding auth_callback_def
  by (auto dest!: state_update_entry simp: one_entry_def same_table_def split: Object.splits option.splits)

definition is_state_update :: "u64 \<times> Object option \<Rightarrow> bool" where
  "is_state_update r = (case r of (q, Some (updateAuthorizationState st)) \<Rightarrow> q = 0 | _ \<Rightarrow> False)"

lemma length_filter_found:
  "map_of xs q \<noteq> None \<Longrightarrow> length (filter (\<lambda>c. fst c \<noteq> q) xs) < length xs"
  by (induction xs) (auto simp: less_Suc_eq_le split: if_splits)

lemma map_of_filter_fst: "map_of (filter (\<lambda>c. fst c \<noteq> q) xs) = (map_of xs)(q := None)"
  by (induction xs) (auto simp: fun_eq_iff)

text \<open>Erasing after the callback keeps the invariant, and is undefined only when the table is full.\<close>

lemma erase_found:
  assumes "one_entry a b" and "room B k a" and "map_of (a_cb a) q \<noteq> None" and "auth_inv u w b"
  shows "case auth_erase_found (a_buckets a) q b of
           Undef \<Rightarrow> B \<le> k | Ok a' \<Rightarrow> auth_inv u w a' \<and> room B k a'"
proof (cases "a_buckets b = a_buckets a")
  case False
  moreover have "a_cb a \<noteq> []" using assms(3) by auto
  ultimately have "B \<le> k" using one_entry_room(2) [OF assms(1,2)] by force
  then show ?thesis using False by (simp add: auth_erase_found_def)
next
  case True
  let ?a' = "b\<lparr>a_cb := filter (\<lambda>c. fst c \<noteq> q) (a_cb b)\<rparr>"
  have "length (filter (\<lambda>c. fst c \<noteq> q) (a_cb a)) < length (a_cb a)"
    by (rule length_filter_found) (rule assms(3))
  then have "length (filter (\<lambda>c. fst c \<noteq> q) (a_cb b)) \<le> length (a_cb a)"
    using one_entry_room(3) [OF assms(1,2)] by auto
  then have "room B k ?a'"
    using one_entry_room(1) [OF assms(1,2)] assms(2,3) True by (auto simp: room_def)
  moreover have "auth_inv u w ?a'"
    using assms(4) by (auto simp: auth_inv_def map_of_filter_fst)
  ultimately show ?thesis using True by (simp add: auth_erase_found_def)
qed

lemma room_mono: "room B k a \<Longrightarrow> k \<le> k' \<Longrightarrow> room B k' a"
  by (auto simp: room_def)

lemma auth_inv_process_response:
  assumes inv: "auth_inv u w a" and nl: "\<not> a_is_login a" and rm: "room B k a"
  shows "case auth_process_response u nd r a of
           Undef \<Rightarrow> B \<le> k
         | Ok a' \<Rightarrow> auth_inv u w a' \<and> room B (k + of_bool (is_state_update r)) a'"
proof (cases "snd r")
  case None
  then show ?thesis using inv room_mono [OF rm] by (simp add: auth_process_response_def)
next
  case (Some ob)
  show ?thesis
  proof (cases "fst r = 0")
    case True
    show ?thesis
    proof (cases "\<exists>st. ob = updateAuthorizationState st")
      case False
      then have "auth_process_response u nd r a = Ok a"
        using Some True by (cases ob) (auto simp: auth_process_response_def auth_process_update_def)
      then show ?thesis using inv room_mono [OF rm] by simp
    next
      case upd: True
      then obtain st where st: "ob = updateAuthorizationState st" by blast
      let ?a = "a\<lparr>a_auth_stat := Some st\<rparr>"
      have "auth_inv u w ?a" "room B k ?a" using inv rm by (simp_all add: auth_inv_def room_def)
      moreover from auth_inv_state_update [OF this(1), of st nd] nl obtain a' where
        "auth_state_update u nd ?a = Ok a'" "auth_inv u w a'" by auto
      moreover have "is_state_update r" using Some True st by (cases r) (simp add: is_state_update_def)
      ultimately show ?thesis
        using Some True st one_entry_room(1) [OF state_update_entry, of u nd ?a a' B k]
        by (simp add: auth_process_response_def auth_process_update_def)
    qed
  next
    case False
    then have nu: "\<not> is_state_update r" by (auto simp: is_state_update_def split: prod.splits option.splits Object.splits)
    show ?thesis
    proof (cases "map_of (a_cb a) (fst r)")
      case None
      then show ?thesis using Some False inv rm nu by (simp add: auth_process_response_def)
    next
      case found: (Some cb)
      have lg: "auth_inv u w (a\<lparr>a_log := l\<rparr>)" "auth_inv u w (a\<lparr>a_log := l, a_exit := e\<rparr>)" for l e
        using inv by (simp_all add: auth_inv_def)
      have "\<exists>b. (if cb then auth_callback u nd ob a
            else Ok (if ob = objOk then a\<lparr>a_log := a_log a @ [''Closing...'']\<rparr> else a)) = Ok b \<and>
          auth_inv u w b \<and> one_entry a b"
      proof (cases cb)
        case True
        obtain st where st: "a_auth_stat a = Some st" using inv found True by (auto simp: auth_inv_def)
        then have "\<exists>b. auth_callback u nd ob a = Ok b \<and> auth_inv u w b"
          using auth_inv_state_update [OF lg(1), of _ st nd] nl inv lg unfolding auth_callback_def
          by (cases ob) (simp_all split: option.split)
        with True show ?thesis using callback_entry by auto
      next
        case False
        then show ?thesis using inv lg by (auto simp: one_entry_def same_table_def)
      qed
      then obtain b where b: "(if cb then auth_callback u nd ob a
            else Ok (if ob = objOk then a\<lparr>a_log := a_log a @ [''Closing...'']\<rparr> else a)) = Ok b"
        "auth_inv u w b" "one_entry a b" by blast
      have "auth_process_response u nd r a = auth_erase_found (a_buckets a) (fst r) b"
        unfolding auth_process_response_def Some found option.case if_not_P [OF False] b(1) by simp
      with erase_found [OF b(3) rm _ b(2), of "fst r"] found nu show ?thesis
        by (simp split: res.split_asm res.split)
    qed
  qed
qed

lemma auth_loop_inv:
  assumes "auth_inv u w a" and "room B k a" and "auth_loop u nd a_is_login rs a = Some r"
  shows "case r of Undef \<Rightarrow> B \<le> k + length (filter is_state_update rs) | Ok a' \<Rightarrow> auth_inv u w a'"
  using assms
proof (induction rs arbitrary: a k)
  case Nil
  then show ?case by (auto simp: auth_loop.simps [of _ _ _ "[]"] split: if_splits)
next
  case (Cons x rs)
  show ?case
  proof (cases "a_is_login a \<or> a_exit a \<noteq> None")
    case True
    with Cons.prems show ?thesis by (auto simp: auth_loop.simps [of _ _ _ "x # rs"])
  next
    case False
    then have "case auth_process_response u nd x a of
           Undef \<Rightarrow> B \<le> k
         | Ok a' \<Rightarrow> auth_inv u w a' \<and> room B (k + of_bool (is_state_update x)) a'"
      using auth_inv_process_response [OF Cons.prems(1) _ Cons.prems(2)] by blast
    moreover have "auth_loop u nd a_is_login (x # rs) a =
        (case auth_process_response u nd x a of Ok a' \<Rightarrow> auth_loop u nd a_is_login rs a' | Undef \<Rightarrow> Some Undef)"
      using False by (simp add: auth_loop.simps [of _ _ _ "x # rs"])
    ultimately show ?thesis
      using Cons.IH [of _ "k + of_bool (is_state_update x)"] Cons.prems(3)
      by (cases "auth_process_response u nd x a") (auto split: res.splits)
  qed
qed

lemma auth_loop_ready:
  assumes "(0, Some (updateAuthorizationState authorizationStateReady)) \<in> set rs"
  shows "auth_loop u nd a_is_login rs a \<noteq> None"
  using assms
proof (induction rs arbitrary: a)
  case (Cons x rs)
  show ?case
  proof (cases "x = (0, Some (updateAuthorizationState authorizationStateReady))")
    case True
    have "a_is_login a'" if "auth_process_response u nd x a = Ok a'" for a'
      using that True
      by (auto simp: auth_process_response_def auth_process_update_def auth_state_update_def)
    then show ?thesis
      by (auto simp: auth_loop.simps [of _ _ _ "x # rs"] auth_loop.simps [of _ _ _ rs] split: res.split)
  next
    case False
    with Cons show ?thesis by (auto simp: auth_loop.simps [of _ _ _ "x # rs"] split: res.split)
  qed
qed simp

lemma new_TdAuth_inv:
  assumes "data_ok u w"
  shows "auth_inv u w (new_TdAuth bkt b ia w inp)"
    and "bucket_law B bkt \<Longrightarrow> room B 0 (new_TdAuth bkt b ia w inp)"
  using assms
  by (simp_all add: new_TdAuth_def Let_def auth_inv_def room_def)
    (simp_all add: auth_send_def Let_def last_params_def)

text \<open>
  C19: Logging in, with the data directory set up and whatever the Telegram library answers and the
  user types. When the loop ends after a login, the data directory reads back the credentials of the
  last \<open>setTdlibParameters\<close> request and the hint that they are stored, and every other setting as
  before; when it ends by \<open>exit\<close>, the directory is unchanged; and the library's report of a
  completed login does end the loop. The loop runs into undefined behaviour in one way only, the
  iterator that is erased after a callback has made the table of callbacks grow, and that takes as
  many authorization updates as the table has buckets when it first holds something; below that
  number it never does. (\<open>login_iterator_invalid\<close> is a run that does.)
\<close>

theorem login_persists:
  assumes "data_ok u w" and "bucket_law B bkt"
  shows "(case TdAuth_loop u nd rs (new_TdAuth bkt b ia w inp) of
            None \<Rightarrow> (0, Some (updateAuthorizationState authorizationStateReady)) \<notin> set rs
          | Some Undef \<Rightarrow> B \<le> length (filter is_state_update rs)
          | Some (Ok a) \<Rightarrow>
              data_ok u (a_world a) \<and>
              view u (a_world a) =
                (if a_is_login a then res_map (login_update (last_params (a_sent a))) (view u w)
                 else view u w))"
proof (cases "TdAuth_loop u nd rs (new_TdAuth bkt b ia w inp)")
  case None
  then show ?thesis using auth_loop_ready [of rs u nd "new_TdAuth bkt b ia w inp"] by (auto simp: TdAuth_loop_def)
next
  case (Some r)
  then have "case r of Undef \<Rightarrow> B \<le> 0 + length (filter is_state_update rs) | Ok a' \<Rightarrow> auth_inv u w a'"
    using auth_loop_inv [OF new_TdAuth_inv(1) [OF assms(1)] new_TdAuth_inv(2) [OF assms]]
    by (simp add: TdAuth_loop_def)
  with Some show ?thesis by (cases r) (simp_all add: auth_inv_def)
qed

text \<open>
  A table of 13 buckets that grows to 29: after thirteen requests for the phone number without an
  answer, the answer that the number of the first was invalid makes the program ask again, and the
  fourteenth entry moves the table while the iterator to the first is still in use.
\<close>

definition prime_buckets :: "nat \<Rightarrow> nat \<Rightarrow> nat" where
  "prime_buckets b n = (if 13 \<le> b \<and> n \<le> b then b else if n \<le> 13 then 13 else max n 29)"

lemma prime_buckets_law: "bucket_law 13 prime_buckets"
  by (simp add: bucket_law_def prime_buckets_def max_def)

text \<open>\<open>m\<close> requests for the phone number without an answer.\<close>

definition asked :: "nat \<Rightarrow> TdAuth \<Rightarrow> bool" where
  "asked m a =
     (a_curr_qry_id a = word_of_nat (m + 2) \<and> length (a_cb a) = m \<and>
      (\<forall>q. map_of (a_cb a) q = (if unat q \<in> {3..m + 2} then Some True else None)) \<and>
      a_bkt a = prime_buckets \<and> (0 < m \<longrightarrow> a_buckets a = 13 \<and> a_auth_stat a = Some authorizationStateWaitPhoneNumber) \<and>
      a_buckets a \<le> 13 \<and> \<not> a_is_login a \<and> a_exit a = None)"

abbreviation ask_phone :: "u64 \<times> Object option" where
  "ask_phone \<equiv> (0, Some (updateAuthorizationState authorizationStateWaitPhoneNumber))"

lemma asked_step:
  assumes "asked m a" and "m < 13"
  shows "\<exists>a'. auth_process_response u nd ask_phone a = Ok a' \<and> asked (Suc m) a'"
proof -
  have small: "unat (word_of_nat i :: u64) = i" if "i < 20" for i
    using that by (simp add: unsigned_of_nat take_bit_nat_eq_self)
  obtain q :: u64 where q: "q = word_of_nat (Suc m + 2)" "unat q = m + 3"
    using small [of "Suc m + 2"] assms(2) by simp
  have "a_curr_qry_id a = word_of_nat (m + 2)" using assms(1) by (simp add: asked_def)
  then have next_id: "a_curr_qry_id a + 1 = q" by (simp add: q(1))
  have tab: "map_of (a_cb a) x = (if unat x \<in> {3..m + 2} then Some True else None)" for x
    using assms(1) by (simp add: asked_def)
  then have fresh: "map_of (a_cb a) q = None" using q(2) by simp
  have bk: "prime_buckets (a_buckets a) (Suc m) = 13"
    using assms by (auto simp: asked_def prime_buckets_def)
  let ?b = "a\<lparr>a_auth_stat := Some authorizationStateWaitPhoneNumber, a_input := snd (getline (a_input a))\<rparr>"
  let ?a = "auth_send (setAuthenticationPhoneNumber (rmspc (fst (getline (a_input a))))) (Some True) ?b"
  have run: "auth_process_response u nd ask_phone a = Ok ?a"
    by (simp add: auth_process_response_def auth_process_update_def auth_state_update_def case_prod_beta)
  have cb: "a_cb ?a = (q, True) # a_cb a" and bks: "a_buckets ?a = 13"
    using next_id fresh bk assms(1)
    by (simp_all add: auth_send_def auth_emplace_def Let_def asked_def)
  have "map_of (a_cb ?a) x = (if unat x \<in> {3..Suc m + 2} then Some True else None)" for x
  proof (cases "x = q")
    case True
    then show ?thesis using q(2) by (simp add: cb)
  next
    case False
    then have "unat x \<noteq> m + 3" using q(2) by (metis word_unat_eq_iff)
    with False show ?thesis by (auto simp: cb tab)
  qed
  then have "asked (Suc m) ?a"
    using assms(1) next_id q(1) cb bks unfolding asked_def by (simp only: auth_send_simps) simp
  with run show ?thesis by blast
qed

lemma asked_loop:
  assumes "asked m a" and "m + n \<le> 13"
  shows "\<exists>a'. asked (m + n) a' \<and>
    auth_loop u nd a_is_login (replicate n ask_phone @ rs) a = auth_loop u nd a_is_login rs a'"
  using assms
proof (induction n arbitrary: m a)
  case 0
  then show ?case by auto
next
  case (Suc n)
  then have "m < 13" by simp
  then obtain b where b: "auth_process_response u nd ask_phone a = Ok b" "asked (Suc m) b"
    using asked_step Suc.prems(1) by blast
  have "\<not> a_is_login a" "a_exit a = None" using Suc.prems(1) by (simp_all add: asked_def)
  then have "auth_loop u nd a_is_login (replicate (Suc n) ask_phone @ rs) a =
      auth_loop u nd a_is_login (replicate n ask_phone @ rs) b"
    using b(1) by (subst auth_loop.simps) simp
  with Suc.IH [OF b(2)] Suc.prems(2) show ?case by auto
qed

lemma login_iterator_invalid:
  "TdAuth_loop u nd (replicate 13 ask_phone @ [(3, Some (objError c ''PHONE_NUMBER_INVALID''))])
     (new_TdAuth prime_buckets b ia w inp) = Some Undef"
proof -
  let ?err = "(3 :: u64, Some (objError c ''PHONE_NUMBER_INVALID''))"
  have "asked 0 (new_TdAuth prime_buckets b ia w inp)"
    by (simp add: asked_def new_TdAuth_def auth_send_def Let_def)
  from asked_loop [OF this, of 13 u nd "[?err]"] obtain a where a: "asked 13 a"
    "auth_loop u nd a_is_login (replicate 13 ask_phone @ [?err]) (new_TdAuth prime_buckets b ia w inp) =
       auth_loop u nd a_is_login [?err] a" by auto
  have fresh: "map_of (a_cb a) (a_curr_qry_id a + 1) = None" and found: "map_of (a_cb a) 3 = Some True"
    using a(1) by (simp_all add: asked_def)
  have "auth_process_response u nd ?err a = Undef"
    using a(1) fresh found
    by (auto simp: asked_def auth_process_response_def auth_callback_def auth_error_text_def
        auth_state_update_def getline_def auth_send_def auth_emplace_def Let_def auth_erase_found_def
        prime_buckets_def)
  then show ?thesis
    using a by (simp add: TdAuth_loop_def auth_loop.simps asked_def)
qed

text \<open>
  With credentials typed in, the phone number is asked for while the rest of the line of the api hash
  is still unread, so the first one sent is empty; the loop on an error then asks again.
\<close>

lemma first_phone_number_empty:
  "auth_process_response u nd (0, Some (updateAuthorizationState authorizationStateWaitPhoneNumber))
     (a\<lparr>a_input := snd (read_word (''abc'' @ [CHR 0x0A] @ ''+1 234'' @ [CHR 0x0A])), a_sent := []\<rparr>) =
   Ok (auth_send (setAuthenticationPhoneNumber []) (Some True)
         (a\<lparr>a_sent := [], a_auth_stat := Some authorizationStateWaitPhoneNumber,
            a_input := ''+1 234'' @ [CHR 0x0A]\<rparr>))"
  by (simp add: auth_process_response_def auth_process_update_def auth_state_update_def getline_def
      read_word_def is_space_def rmspc_def)

lemma login_persists_witness:
  "\<exists>u w a. TdAuth_loop u True
       [(0, Some (updateAuthorizationState authorizationStateWaitTdlibParameters)),
        (0, Some (updateAuthorizationState authorizationStateReady))]
       (new_TdAuth prime_buckets True False w []) = Some (Ok a) \<and>
     a_is_login a \<and> get_api_id u (a_world a) = Ok our_api_id"
proof -
  let ?u = "\<lparr>lck_droot = None, lck_filters = Some ''l'', data_root_majv = ''/h''\<rparr>"
  let ?w = "\<lparr>files = (\<lambda>_. Some []), dirs = {}, deny = (\<lambda>_. False), flock_ok = True, held = {}\<rparr>"
  let ?a = "new_TdAuth prime_buckets True False ?w []"
  let ?r1 = "(0 :: u64, Some (updateAuthorizationState authorizationStateWaitTdlibParameters))"
  let ?r2 = "(0 :: u64, Some (updateAuthorizationState authorizationStateReady))"
  have ok: "data_ok ?u ?w" by (simp add: data_ok_def data_paths_def)
  have hint: "get_auth_hint ?u ?w = Ok False"
    by (simp add: auth_hint.get_rd)
  obtain b where b: "auth_process_response ?u True ?r1 ?a = Ok b"
    "last_params (a_sent b) = (our_api_id, our_api_hash)" "\<not> a_is_login b" "a_exit b = None"
    using hint
    by (auto simp: auth_process_response_def auth_process_update_def auth_state_update_def
        credentials_def new_TdAuth_def auth_send_def Let_def last_params_def)
  have "\<not> a_is_login ?a" by (simp add: new_TdAuth_def Let_def)
  from auth_inv_process_response [OF new_TdAuth_inv(1) [OF ok] this new_TdAuth_inv(2) [OF ok prime_buckets_law], where nd = True and r = ?r1]
  have "auth_inv ?u ?w b" using b(1) by simp
  then obtain w' where "store_login ?u (b\<lparr>a_auth_stat := Some authorizationStateReady, a_is_auth := True\<rparr>) =
      Ok (b\<lparr>a_auth_stat := Some authorizationStateReady, a_is_auth := True, a_world := w'\<rparr>)"
    using store_login_view [of ?u "b\<lparr>a_auth_stat := Some authorizationStateReady, a_is_auth := True\<rparr>"]
    by (auto simp: auth_inv_def)
  then obtain c where c: "auth_process_response ?u True ?r2 b = Ok c" "a_is_login c" "a_sent c = a_sent b"
    by (auto simp: auth_process_response_def auth_process_update_def auth_state_update_def)
  have "\<not> a_is_login ?a" "a_exit ?a = None"
    by (simp_all add: new_TdAuth_def Let_def auth_send_def)
  then have run: "TdAuth_loop ?u True [?r1, ?r2] ?a = Some (Ok c)"
    using b c by (simp add: TdAuth_loop_def auth_loop.simps)
  then have "view ?u (a_world c) = res_map (login_update (our_api_id, our_api_hash)) (view ?u ?w)"
    using login_persists [OF ok prime_buckets_law, where nd = True and rs = "[?r1, ?r2]" and b = True and ia = False and inp = "[]"] b(2) c by simp
  then have "get_api_id ?u (a_world c) = Ok our_api_id"
    unfolding view_eq [OF ok] by (auto simp: view_def login_update_def split: if_splits)
  with run c(2) show ?thesis by blast
qed

end
