(* ===== verification/Daemon.thy ===== *)
theory Daemon
  imports Pipeline IpcNet
begin

text \<open>
  The daemon's workers: \<open>src/src/worker/ipc_conn_handler.cc\<close>, \<open>conn_listener.cc\<close>,
  \<open>ipc_msg_dequer.cc\<close>, \<open>ipc_server_initer.cc\<close> and \<open>coll_initer.cc\<close>, with the flags of
  \<open>stat.cc\<close> through which they start and stop each other. Every worker is the list of
  instructions it still has to carry out; a step takes one instruction of one worker, so that the
  workers interleave at every access to a shared flag. Log lines and sleeping are left out, and the
  atomics are sequentially consistent.
\<close>

section \<open>Reading a frame\<close>

text \<open>What \<open>epoll_wait\<close> and \<open>read\<close> report: a failure, no data within the time, or data (none at
  the end of the file).\<close>

datatype conn_event = EvFail | EvTimeout | EvData "u8 list"

record conn =
  cn_epoll :: int
  cn_ctl :: int
  cn_events :: "conn_event list"

datatype conn_end = ConnAbort | ConnGiveup | ConnFrame "u8 list"

text \<open>
  The loop of \<open>operator ()\<close>. Every \<open>read\<close> stores at the start of the buffer. \<open>None\<close> says that
  the events at hand do not end it.
\<close>

fun conn_loop :: "nat \<Rightarrow> u8 list \<Rightarrow> conn_event list \<Rightarrow> conn_end option" where
  "conn_loop nread_total buffer evs =
     (if nread_total = NBYTE_IPCMSG_ALL then Some (ConnFrame buffer)
      else case evs of
             [] \<Rightarrow> None
           | EvFail # _ \<Rightarrow> Some ConnAbort
           | EvTimeout # evs' \<Rightarrow> conn_loop nread_total buffer evs'
           | EvData d0 # evs' \<Rightarrow>
               (let d = take NBYTE_IPCMSG_ALL d0
                in if d = [] then Some ConnGiveup
                   else conn_loop (nread_total + length d) (d @ drop (length d) buffer) evs'))"

declare conn_loop.simps [simp del]

definition conn_read :: "u8 list \<Rightarrow> conn \<Rightarrow> conn_end option" where
  "conn_read junk c =
     (if cn_epoll c = -1 then Some ConnAbort
      else if cn_ctl c = -1 then Some ConnAbort
      else conn_loop 0 junk (cn_events c))"

section \<open>Flags, instructions and the state\<close>

datatype flag =
    coll_initer_up | conn_listener | conn_listener_succ | ipcsrv_initer | ipcsrv_initer_succ
  | ipcconn_handler | ipcconn_handler_succ | ipcmsg_dequer | ipcmsg_dequer_succ | coll_initer
  | coll_initer_succ | coll_producer | coll_producer_succ | coll_consumer | coll_consumer_succ
  | coll_switcher | coll_switcher_succ | q_ipcmsg_has_upd

datatype listen_event = LTimeout | LFail | LConn int bool

text \<open>
  \<open>WaitFor f\<close> is \<open>f.wait (false)\<close>, \<open>IfFlag\<close> a test of a flag; \<open>ReadConn\<close>, \<open>ReportStatus\<close>,
  \<open>Dequeue\<close>, \<open>AwaitAuth\<close>, \<open>IfAuth\<close>, \<open>InitColl\<close>, \<open>SetLocale\<close> stand for the calls of that part of
  the code, and \<open>DequerRound\<close>, \<open>ListenRound\<close> for the heads of the loops.
\<close>

datatype instr =
    Store flag bool
  | WaitFor flag
  | IfFlag flag "instr list" "instr list"
  | Send int "u8 list"
  | CloseFd int
  | Spawn "instr list"
  | ExitMain
  | ReadConn int bool
  | ReportStatus int
  | Enqueue IpcMsg
  | Dequeue
  | DequerRound
  | ListenRound
  | SetLocale
  | AwaitAuth
  | IfAuth "instr list" "instr list"
  | InitColl

record daemon =
  d_flag :: "flag \<Rightarrow> bool"
  d_q :: IpcMsgQueue
  d_g :: gstate
  d_loc :: locale_state
  d_incoming :: "listen_event list"
  d_conns :: "int \<Rightarrow> conn"
  d_threads :: "instr list list"
  d_sent :: "(int \<times> u8 list) list"
  d_closed :: "int list"
  d_exit :: "int option"

record denv =
  de_user :: UserData
  de_avail :: "string \<Rightarrow> bool"
  de_junk :: u32
  de_junkbuf :: "u8 list"

text \<open>\<open>q_ipcmsg_has_upd\<close> is kept with the queue that raises it.\<close>

definition flag_on :: "flag \<Rightarrow> daemon \<Rightarrow> bool" where
  "flag_on f d = (if f = q_ipcmsg_has_upd then q_has_upd (d_q d) else d_flag d f)"

definition set_flag :: "flag \<Rightarrow> bool \<Rightarrow> daemon \<Rightarrow> daemon" where
  "set_flag f b d =
     (if f = q_ipcmsg_has_upd then d\<lparr>d_q := (d_q d)\<lparr>q_has_upd := b\<rparr>\<rparr>
      else d\<lparr>d_flag := (d_flag d)(f := b)\<rparr>)"

text \<open>\<open>exitMain\<close> ignores the error code it is given.\<close>

definition exitMain :: "u8 \<Rightarrow> daemon \<Rightarrow> daemon" where
  "exitMain ec d = d\<lparr>d_exit := Some 1\<rparr>"

text \<open>
  The check after a thread object has been made: \<open>None\<close> is an object without a thread. A
  constructor that fails throws instead of leaving such an object, so the check passes.
\<close>

fun is_valid_thread :: "nat option \<Rightarrow> u8 \<Rightarrow> daemon \<Rightarrow> daemon" where
  "is_valid_thread None ec d = exitMain ec d"
| "is_valid_thread (Some i) ec d = d"

section \<open>The collector's workers\<close>

text \<open>
  How producer, consumer and switcher stop; their rounds are the steps of theory \<open>Pipeline\<close>.
\<close>

definition producer_prog :: "instr list" where
  "producer_prog = [WaitFor coll_producer, Store coll_producer_succ True]"

definition consumer_prog :: "instr list" where
  "consumer_prog = [WaitFor coll_consumer, Store coll_consumer_succ True]"

definition switcher_prog :: "instr list" where
  "switcher_prog =
     [WaitFor coll_switcher, Store coll_producer True, WaitFor coll_producer_succ,
      Store coll_consumer True, WaitFor coll_consumer_succ, Store coll_switcher_succ True]"

text \<open>\<open>CollIniter\<close>. The destructors of the three threads wait for their ends.\<close>

definition coll_initer_prog :: "instr list" where
  "coll_initer_prog =
     [Store coll_initer_up True, SetLocale, AwaitAuth,
      IfAuth
        [InitColl, Spawn producer_prog, Spawn consumer_prog, Spawn switcher_prog,
         WaitFor coll_initer, Store coll_switcher True, WaitFor coll_switcher_succ,
         WaitFor coll_consumer_succ, WaitFor coll_producer_succ]
        [],
      Store coll_initer_succ True, Store coll_initer_up False]"

section \<open>Handling a message\<close>

definition send_reply :: "int \<Rightarrow> ErrCode + IpcMsg \<Rightarrow> instr list" where
  "send_reply fd r = (case r of Inl ec \<Rightarrow> [ExitMain] | Inr m \<Rightarrow> [Send fd (im_data m)])"

definition handle_shutipcsrv_msg :: "int \<Rightarrow> instr list" where
  "handle_shutipcsrv_msg fd =
     [IfFlag coll_initer_up [Store coll_initer True] [Store coll_initer_succ True],
      WaitFor coll_initer_succ] @
     send_reply fd new_ipcmsg_success @ [Store ipcsrv_initer True]"

definition handle_upcoll_msg :: "int \<Rightarrow> instr list" where
  "handle_upcoll_msg fd =
     [IfFlag coll_initer_up []
        [Store coll_producer False, Store coll_producer_succ False, Store coll_consumer False,
         Store coll_consumer_succ False, Store coll_switcher False, Store coll_switcher_succ False,
         Store coll_initer False, Store coll_initer_succ False, Spawn coll_initer_prog]] @
     send_reply fd new_ipcmsg_success"

definition handle_shutcoll_msg :: "int \<Rightarrow> instr list" where
  "handle_shutcoll_msg fd =
     [IfFlag coll_initer_up [Store coll_initer True, WaitFor coll_initer_succ] []] @
     send_reply fd new_ipcmsg_success"

definition dispatch_msg :: "int \<Rightarrow> bool \<Rightarrow> IpcMsg \<Rightarrow> instr list" where
  "dispatch_msg fd immd msg =
     (if immd then
        (if im_type msg = IpcMsg_Ignore then send_reply fd new_ipcmsg_success else []) @
        (if im_type msg = IpcMsg_ShutdownIpcSrv then handle_shutipcsrv_msg fd else []) @
        (if im_type msg = IpcMsg_ReportStatus then [ReportStatus fd] else []) @
        (if im_type msg = IpcMsg_UpColl then handle_upcoll_msg fd else []) @
        (if im_type msg = IpcMsg_ShutdownColl then handle_shutcoll_msg fd else [])
      else Enqueue msg # send_reply fd new_ipcmsg_success)"

text \<open>
  The handler object: its destructor closes the connection, but only of the copy that has handled it.
\<close>

record IpcConnHandler =
  connfd :: int
  conn_handled :: bool
  is_immd :: bool

definition new_IpcConnHandler :: "int \<Rightarrow> bool \<Rightarrow> IpcConnHandler" where
  "new_IpcConnHandler fd im = \<lparr>connfd = fd, conn_handled = False, is_immd = im\<rparr>"

definition delete_IpcConnHandler :: "IpcConnHandler \<Rightarrow> instr list" where
  "delete_IpcConnHandler h =
     (if connfd h \<ge> 0 \<and> conn_handled h then [CloseFd (connfd h)] else [])"

lemma delete_handler [simp]:
  "delete_IpcConnHandler (new_IpcConnHandler fd im) = []"
  "delete_IpcConnHandler (new_IpcConnHandler fd im\<lparr>conn_handled := True\<rparr>) =
     (if fd \<ge> 0 then [CloseFd fd] else [])"
  by (simp_all add: delete_IpcConnHandler_def new_IpcConnHandler_def)

text \<open>
  What follows the loop of \<open>operator ()\<close>, with the destructor: a failing system call returns at
  once, without the flag and without closing the connection.
\<close>

definition handle_conn :: "u32 \<Rightarrow> int \<Rightarrow> bool \<Rightarrow> conn_end \<Rightarrow> instr list" where
  "handle_conn junk fd immd r =
     (let h = new_IpcConnHandler fd immd;
          close = delete_IpcConnHandler (h\<lparr>conn_handled := True\<rparr>)
      in case r of
           ConnAbort \<Rightarrow> delete_IpcConnHandler h
         | ConnGiveup \<Rightarrow> send_reply fd new_ipcmsg_error @ [Store ipcconn_handler_succ True] @ close
         | ConnFrame b \<Rightarrow>
             dispatch_msg fd immd (new_IpcMsg junk b) @ [Store ipcconn_handler_succ True] @ close)"

text \<open>The text of a status report.\<close>

definition status_text :: "bool \<Rightarrow> bool \<Rightarrow> bool \<Rightarrow> u32 \<Rightarrow> u32 \<Rightarrow> nat \<Rightarrow> Lang \<Rightarrow> string" where
  "status_text auth up pause n_coll n_total mqsz lang =
     ''       Logged in : '' @ (if auth then ''YES'' else ''NO'') @ [CHR 0x0A] @
     ''       Collector : '' @ (if up then ''UP'' else ''DOWN'') @ [CHR 0x0A] @
     ''    Focus Paused : '' @ (if pause then ''YES'' else ''NO'') @ [CHR 0x0A] @
     '' Forwarded/Total : '' @ show_nat (unat n_coll) @ ''/'' @ show_nat (unat n_total) @ [CHR 0x0A] @
     ''         Pending : '' @ show_nat mqsz @ [CHR 0x0A] @
     ''     Host Locale : '' @ lang_to_cstr lang @ [CHR 0x0A]"

definition rhandle_rstatus :: "denv \<Rightarrow> int \<Rightarrow> daemon \<Rightarrow> instr list res" where
  "rhandle_rstatus e fd d =
     res_bind (get_auth_hint (de_user e) (g_world (d_g d))) (\<lambda>auth.
     res_map (\<lambda>_.
         let rpl = status_text auth (flag_on coll_initer_up d) (cs_pause (g_cmd (d_g d)))
                     (g_msg_coll (d_g d)) (g_msg_total (d_g d)) (length (g_mq (d_g d))) (host_lang (d_loc d));
             bytes = map byte_of_char rpl
         in case new_ipcmsg_successr bytes of
              Inl ec \<Rightarrow> [ExitMain]
            | Inr m \<Rightarrow>
                [Send fd (ipcmsg_data m), Send fd (take (unat (im_extargs_len m)) bytes)])
       (get_pref_lang (de_user e) (g_world (d_g d))))"

section \<open>The other workers\<close>

definition conn_listener_prog :: "int \<Rightarrow> int \<Rightarrow> int \<Rightarrow> int \<Rightarrow> int \<Rightarrow> instr list" where
  "conn_listener_prog sock_lazy sock_immd ep_fd ctl1 ctl2 =
     (if sock_lazy < 0 \<or> sock_immd < 0 then [ExitMain]
      else if ep_fd = -1 then [ExitMain]
      else if ctl1 = -1 then [ExitMain]
      else if ctl2 = -1 then [ExitMain]
      else [ListenRound])"

definition dequer_prog :: "instr list" where
  "dequer_prog = [DequerRound]"

definition ipc_server_initer_prog :: "bool \<Rightarrow> instr list \<Rightarrow> instr list" where
  "ipc_server_initer_prog srv_ok listener =
     (if srv_ok then
        [Spawn listener, WaitFor ipcsrv_initer, Store ipcmsg_dequer True, Store q_ipcmsg_has_upd True,
         Store ipcconn_handler True, Store conn_listener True, Store ipcsrv_initer_succ True]
      else [])"

text \<open>The main thread of the daemon, after it has started server and dequeuer.\<close>

definition child_main_prog :: "instr list" where
  "child_main_prog =
     [WaitFor coll_initer_succ, WaitFor ipcsrv_initer_succ, WaitFor ipcconn_handler_succ,
      WaitFor ipcmsg_dequer_succ, WaitFor conn_listener_succ]"

section \<open>Steps\<close>

type_synonym outcome = "(instr list \<times> instr list list \<times> daemon) res option"

text \<open>
  The outcome of an instruction: what it puts in front of the rest of its worker, the workers it
  starts, and the new state. \<open>None\<close> means that the worker waits.
\<close>

text \<open>
  One round of the listener. A message on the second socket is handled in the listener itself, one
  on the first in a worker of its own, which runs on a copy of the handler while the listener
  destroys the original.
\<close>

definition listen_round :: "daemon \<Rightarrow> outcome" where
  "listen_round d =
     (if flag_on conn_listener d then Some (Ok ([Store conn_listener_succ True], [], d))
      else case d_incoming d of
             [] \<Rightarrow> None
           | LTimeout # r \<Rightarrow> Some (Ok ([ListenRound], [], d\<lparr>d_incoming := r\<rparr>))
           | LFail # r \<Rightarrow> Some (Ok ([ExitMain], [], d\<lparr>d_incoming := r\<rparr>))
           | LConn fd immd # r \<Rightarrow>
               if immd then Some (Ok ([ReadConn fd True, ListenRound], [], d\<lparr>d_incoming := r\<rparr>))
               else Some (Ok (delete_IpcConnHandler (new_IpcConnHandler fd False) @ [ListenRound],
                 [[ReadConn fd False]], d\<lparr>d_incoming := r\<rparr>)))"

text \<open>The worker that takes messages from the queue: its loop, and the body after the wait.\<close>

definition dequer_round :: "daemon \<Rightarrow> outcome" where
  "dequer_round d =
     Some (Ok
       (if flag_on ipcmsg_dequer d then [Store ipcmsg_dequer_succ True]
        else [WaitFor q_ipcmsg_has_upd, Store q_ipcmsg_has_upd False, Dequeue, DequerRound], [], d))"

definition handle_dequeued :: "daemon \<Rightarrow> outcome" where
  "handle_dequeued d =
     (let (may, q) = deque (d_q d)
      in Some (Ok
           (case may of
              Some msg \<Rightarrow>
                if im_type msg = IpcMsg_Ignore then []
                else if im_type msg = IpcMsg_ShutdownIpcSrv then [Store ipcsrv_initer True] else []
            | None \<Rightarrow> [], [], d\<lparr>d_q := q\<rparr>)))"

text \<open>The initer: the language, the wait for the login, and what depends on it.\<close>

definition set_locale :: "denv \<Rightarrow> daemon \<Rightarrow> outcome" where
  "set_locale e d =
     Some (res_map
       (\<lambda>l. ([], [], d\<lparr>d_loc := snd (try_ensure_locale (de_avail e) ((d_loc d)\<lparr>prefer_lang := l\<rparr>))\<rparr>))
       (get_pref_lang (de_user e) (g_world (d_g d))))"

definition await_auth :: "denv \<Rightarrow> daemon \<Rightarrow> outcome" where
  "await_auth e d =
     Some (res_map
       (\<lambda>auth. (if auth \<or> flag_on coll_initer d then [] else [AwaitAuth], [], d))
       (get_auth_hint (de_user e) (g_world (d_g d))))"

definition if_auth :: "denv \<Rightarrow> instr list \<Rightarrow> instr list \<Rightarrow> daemon \<Rightarrow> outcome" where
  "if_auth e p q d =
     Some (res_map (\<lambda>auth. (if auth then p else q, [], d))
       (get_auth_hint (de_user e) (g_world (d_g d))))"

fun exec :: "denv \<Rightarrow> instr \<Rightarrow> daemon \<Rightarrow> outcome" where
  "exec e (Store f b) d = Some (Ok ([], [], set_flag f b d))"
| "exec e (WaitFor f) d = (if flag_on f d then Some (Ok ([], [], d)) else None)"
| "exec e (IfFlag f p q) d = Some (Ok (if flag_on f d then p else q, [], d))"
| "exec e (Send fd bs) d = Some (Ok ([], [], d\<lparr>d_sent := d_sent d @ [(fd, bs)]\<rparr>))"
| "exec e (CloseFd fd) d = Some (Ok ([], [], d\<lparr>d_closed := d_closed d @ [fd]\<rparr>))"
| "exec e (Spawn p) d = Some (Ok ([], [p], is_valid_thread (Some (length (d_threads d))) 0 d))"
| "exec e ExitMain d = Some (Ok ([], [], exitMain 0 d))"
| "exec e (ReadConn fd immd) d =
     (case conn_read (de_junkbuf e) (d_conns d fd) of
        None \<Rightarrow> None
      | Some r \<Rightarrow> Some (Ok (handle_conn (de_junk e) fd immd r, [], d)))"
| "exec e (ReportStatus fd) d = Some (res_map (\<lambda>p. (p, [], d)) (rhandle_rstatus e fd d))"
| "exec e (Enqueue msg) d = Some (Ok ([], [], d\<lparr>d_q := snd (enqueue msg (d_q d))\<rparr>))"
| "exec e Dequeue d = handle_dequeued d"
| "exec e DequerRound d = dequer_round d"
| "exec e ListenRound d = listen_round d"
| "exec e SetLocale d = set_locale e d"
| "exec e AwaitAuth d = await_auth e d"
| "exec e (IfAuth p q) d = if_auth e p q d"
| "exec e InitColl d = Some (Ok ([], [], d\<lparr>d_g := on_coll td_init (d_g d)\<rparr>))"

definition daemon_step :: "denv \<Rightarrow> nat \<Rightarrow> daemon \<Rightarrow> daemon res option" where
  "daemon_step e i d =
     (if d_exit d \<noteq> None \<or> i \<ge> length (d_threads d) then None
      else case d_threads d ! i of
             [] \<Rightarrow> None
           | c # cs \<Rightarrow>
               map_option (res_map (\<lambda>(p, new, d').
                   d'\<lparr>d_threads := (d_threads d)[i := p @ cs] @ new\<rparr>)) (exec e c d))"

text \<open>A schedule names the worker that takes each step.\<close>

fun daemon_run :: "denv \<Rightarrow> nat list \<Rightarrow> daemon \<Rightarrow> daemon res option" where
  "daemon_run e [] d = Some (Ok d)"
| "daemon_run e (i # is) d =
     (case daemon_step e i d of
        Some (Ok d') \<Rightarrow> daemon_run e is d'
      | r \<Rightarrow> r)"

definition upAllWorkersOneShot :: "bool \<Rightarrow> instr list \<Rightarrow> instr list list" where
  "upAllWorkersOneShot srv_ok listener = [ipc_server_initer_prog srv_ok listener, dequer_prog]"

definition start_daemon :: "bool \<Rightarrow> instr list \<Rightarrow> gstate \<Rightarrow> locale_state \<Rightarrow> listen_event list \<Rightarrow> (int \<Rightarrow> conn) \<Rightarrow> daemon" where
  "start_daemon srv_ok listener g loc incoming conns =
     \<lparr>d_flag = (\<lambda>_. False), d_q = queue_new, d_g = g, d_loc = loc, d_incoming = incoming,
      d_conns = conns, d_threads = child_main_prog # upAllWorkersOneShot srv_ok listener,
      d_sent = [], d_closed = [], d_exit = None\<rparr>"

section \<open>Frames that arrive in two parts\<close>

lemma conn_loop_simps [simp]:
  "conn_loop NBYTE_IPCMSG_ALL buffer evs = Some (ConnFrame buffer)"
  "n \<noteq> NBYTE_IPCMSG_ALL \<Longrightarrow> conn_loop n buffer [] = None"
  "n \<noteq> NBYTE_IPCMSG_ALL \<Longrightarrow> d \<noteq> [] \<Longrightarrow> length d \<le> NBYTE_IPCMSG_ALL \<Longrightarrow>
     conn_loop n buffer (EvData d # evs) =
       conn_loop (n + length d) (d @ drop (length d) buffer) evs"
  by (subst conn_loop.simps, auto)+

lemma new_IpcMsg_no_magic:
  assumes "length buf = 64" and "hd buf \<noteq> 0x74"
  shows "im_type (new_IpcMsg j buf) = IpcMsg_Ignore"
proof -
  obtain a b c t1 t2 e1 e2 e3 e4 args where
    "buf = [a, b, c, t1, t2, e1, e2, e3, e4] @ args" "length args = 55"
    using frame_cases [OF assms(1)] .
  with assms(2) show ?thesis using parse_frame [of args j] by simp
qed

lemma simple_frame:
  assumes "new_ipcmsg0 ty zero_args = Inr m"
  shows "\<exists>h. im_data m = h @ replicate 55 0 \<and> length h = 9" and "new_IpcMsg j (im_data m) = m"
    and "im_type m = ty"
proof -
  have len: "length zero_args = 55" by (simp add: zero_args_def nbyte_defs)
  obtain t1 t2 where t: "be16 ty = [t1, t2]" by (simp add: be16_def)
  obtain e1 e2 e3 e4 where e: "be32 0 = [e1, e2, e3, e4]" by (simp add: be32_def)
  have "be_read 0 [t1, t2] = ty" "be_read 0 [e1, e2, e3, e4] = (0 :: u32)"
    using be16.dec_enc [of ty] be32.dec_enc [of 0] by (simp_all only: t e)
  moreover have m: "m = \<lparr>im_type = ty, im_data = [0x74, 0x67, 0x66] @ be16 ty @ be32 0 @ zero_args,
      im_data_len = 64, im_extargs_len = 0, im_extargs = None, im_is_parsed = True\<rparr>"
    using assms new_ipcmsg_Inr [OF len, of ty 0] by (simp add: new_ipcmsg0_def)
  ultimately show "new_IpcMsg j (im_data m) = m"
    using parse_frame [OF len, of j "0x74" "0x67" "0x66" t1 t2 e1 e2 e3 e4]
    by (simp add: t e del: be_read.simps)
  show "\<exists>h. im_data m = h @ replicate 55 0 \<and> length h = 9"
    by (rule exI [of _ "[0x74, 0x67, 0x66] @ be16 ty @ be32 0"])
      (simp add: m t e zero_args_def nbyte_defs)
  show "im_type m = ty" by (simp add: m)
qed

text \<open>
  C30: A command that arrives in one read is carried out. When the connection delivers the same frame
  in two reads, cut after at least nine bytes, the second part overwrites the first, the frame is
  taken for a message to ignore, and the client is told that its command succeeded although nothing
  has been done.
\<close>

theorem split_command_acknowledged:
  assumes "new_ipcmsg0 ty zero_args = Inr m" and "9 \<le> n" and "n < 64" and "length junk = 64"
    and "cn_epoll c \<noteq> -1" and "cn_ctl c \<noteq> -1"
  shows "(cn_events c = [EvData (im_data m)] \<longrightarrow>
            map_option (handle_conn j fd True) (conn_read junk c) =
              Some (dispatch_msg fd True m @ [Store ipcconn_handler_succ True] @
                (if fd \<ge> 0 then [CloseFd fd] else []))) \<and>
    (cn_events c = [EvData (take n (im_data m)), EvData (drop n (im_data m))] \<longrightarrow>
            map_option (handle_conn j fd True) (conn_read junk c) =
              Some (send_reply fd new_ipcmsg_success @ [Store ipcconn_handler_succ True] @
                (if fd \<ge> 0 then [CloseFd fd] else [])))"
proof -
  obtain h where h: "im_data m = h @ replicate 55 0" "length h = 9"
    using simple_frame(1) [OF assms(1)] by blast
  let ?b = "drop n (im_data m)" and ?a = "take n (im_data m)"
  have len: "length (im_data m) = 64" "length ?a = n" "length ?b = 64 - n"
    using h assms(2,3) by simp_all
  let ?buf = "?b @ drop (64 - n) (?a @ drop n junk)"
  have "conn_loop 0 junk [EvData (im_data m)] = Some (ConnFrame (im_data m))"
    using len assms(4) by (subst conn_loop_simps(3)) (auto simp: nbyte_defs conn_loop.simps)
  moreover have "conn_loop 0 junk [EvData ?a, EvData ?b] = Some (ConnFrame ?buf)"
  proof -
    have "conn_loop 0 junk [EvData ?a, EvData ?b] = conn_loop n (?a @ drop n junk) [EvData ?b]"
      using len assms(2,3) by (subst conn_loop_simps(3)) (auto simp: nbyte_defs)
    also have "\<dots> = conn_loop (n + (64 - n)) ?buf []"
      using len assms(2,3) by (subst conn_loop_simps(3)) (auto simp: nbyte_defs)
    also have "\<dots> = Some (ConnFrame ?buf)"
      using assms(3) conn_loop_simps(1) [of ?buf "[]"] by (simp add: nbyte_defs)
    finally show ?thesis .
  qed
  moreover have "im_type (new_IpcMsg j ?buf) = IpcMsg_Ignore"
  proof (rule new_IpcMsg_no_magic)
    show "length ?buf = 64" using len assms(2-4) by simp
    have "?b = replicate (64 - n) 0"
      using h assms(2,3) by (simp add: drop_replicate)
    then show "hd ?buf \<noteq> 0x74" using assms(3) by (cases "64 - n") auto
  qed
  ultimately show ?thesis
    using assms(5,6) simple_frame(2) [OF assms(1), of j]
    by (auto simp: conn_read_def handle_conn_def dispatch_msg_def ipcmsg_type_defs)
qed

lemma split_command_witness:
  "\<exists>m c. new_ipcmsg_upcoll = Inr m \<and> cn_events c = [EvData (take 32 (im_data m)), EvData (drop 32 (im_data m))] \<and>
     map_option (handle_conn 7 5 True) (conn_read (replicate 64 1) c) =
       Some (send_reply 5 new_ipcmsg_success @ [Store ipcconn_handler_succ True, CloseFd 5])"
proof -
  have "length zero_args = 55" by (simp add: zero_args_def nbyte_defs)
  then obtain m where m: "new_ipcmsg0 IpcMsg_UpColl zero_args = Inr m"
    unfolding new_ipcmsg0_def using new_ipcmsg_Inr by blast
  let ?c = "\<lparr>cn_epoll = 3, cn_ctl = 0, cn_events = [EvData (take 32 (im_data m)), EvData (drop 32 (im_data m))]\<rparr>"
  have "new_ipcmsg_upcoll = Inr m" using m by (simp add: new_ipcmsg_upcoll_def)
  moreover have "map_option (handle_conn 7 5 True) (conn_read (replicate 64 1) ?c) =
       Some (send_reply 5 new_ipcmsg_success @ [Store ipcconn_handler_succ True, CloseFd 5])"
    using split_command_acknowledged [OF m, of 32 "replicate 64 1" ?c 7 5] by simp
  ultimately show ?thesis by (intro exI conjI) auto
qed

section \<open>Starting and stopping the collector\<close>

text \<open>A connection that delivers one message in one read, and the reply of success.\<close>

definition control_conn :: "IpcMsgType \<Rightarrow> conn" where
  "control_conn ty =
     \<lparr>cn_epoll = 9, cn_ctl = 0,
      cn_events = [EvData (case new_ipcmsg0 ty zero_args of Inr m \<Rightarrow> im_data m | Inl ec \<Rightarrow> [])]\<rparr>"

definition ok_bytes :: "u8 list" where
  "ok_bytes = (case new_ipcmsg_success of Inr m \<Rightarrow> im_data m | Inl ec \<Rightarrow> [])"

lemma new_ipcmsg0_Inr: "\<exists>m. new_ipcmsg0 ty zero_args = Inr m"
proof -
  have "length zero_args = 55" by (simp add: zero_args_def nbyte_defs)
  then show ?thesis unfolding new_ipcmsg0_def using new_ipcmsg_Inr by blast
qed

lemma send_ok [simp]: "send_reply fd new_ipcmsg_success = [Send fd ok_bytes]"
  using new_ipcmsg0_Inr [of IpcMsg_Success]
  by (auto simp: send_reply_def ok_bytes_def new_ipcmsg_success_def)

lemma conn_read_control:
  assumes "length junk = 64"
  shows "\<exists>b. conn_read junk (control_conn ty) = Some (ConnFrame b) \<and> im_type (new_IpcMsg j b) = ty"
proof -
  obtain m where m: "new_ipcmsg0 ty zero_args = Inr m" using new_ipcmsg0_Inr by blast
  obtain h where "im_data m = h @ replicate 55 0" "length h = 9"
    using simple_frame(1) [OF m] by blast
  then have len: "length (im_data m) = 64" by simp
  have "conn_loop 0 junk [EvData (im_data m)] = Some (ConnFrame (im_data m))"
    using len assms by (subst conn_loop_simps(3)) (auto simp: nbyte_defs conn_loop.simps)
  then show ?thesis
    using simple_frame(2,3) [OF m] by (simp add: conn_read_def control_conn_def m)
qed

lemma exec_read_upcoll:
  assumes "length (de_junkbuf e) = 64" and "d_conns d fd = control_conn IpcMsg_UpColl" and "fd \<ge> 0"
  shows "exec e (ReadConn fd True) d =
    Some (Ok (handle_upcoll_msg fd @ [Store ipcconn_handler_succ True, CloseFd fd], [], d))"
proof -
  obtain b where "conn_read (de_junkbuf e) (control_conn IpcMsg_UpColl) = Some (ConnFrame b)"
    "im_type (new_IpcMsg (de_junk e) b) = IpcMsg_UpColl"
    using conn_read_control [OF assms(1)] by blast
  then show ?thesis
    using assms(2,3) by (simp add: handle_conn_def dispatch_msg_def ipcmsg_type_defs)
qed

lemma exec_read_shutcoll:
  assumes "length (de_junkbuf e) = 64" and "d_conns d fd = control_conn IpcMsg_ShutdownColl" and "fd \<ge> 0"
  shows "exec e (ReadConn fd True) d =
    Some (Ok (handle_shutcoll_msg fd @ [Store ipcconn_handler_succ True, CloseFd fd], [], d))"
proof -
  obtain b where "conn_read (de_junkbuf e) (control_conn IpcMsg_ShutdownColl) = Some (ConnFrame b)"
    "im_type (new_IpcMsg (de_junk e) b) = IpcMsg_ShutdownColl"
    using conn_read_control [OF assms(1)] by blast
  then show ?thesis
    using assms(2,3) by (simp add: handle_conn_def dispatch_msg_def ipcmsg_type_defs)
qed

lemma daemon_run_append:
  assumes "daemon_run e xs d = Some (Ok d')"
  shows "daemon_run e (xs @ ys) d = daemon_run e ys d'"
  using assms by (induction xs arbitrary: d) (auto split: option.splits res.splits)

lemmas daemon_sim =
  start_daemon_def upAllWorkersOneShot_def ipc_server_initer_prog_def daemon_step_def
  exec_read_upcoll exec_read_shutcoll set_flag_def flag_on_def handle_upcoll_msg_def
  handle_shutcoll_msg_def coll_initer_prog_def producer_prog_def consumer_prog_def
  switcher_prog_def on_coll_def child_main_prog_def dequer_prog_def
  listen_round_def set_locale_def await_auth_def if_auth_def

text \<open>The daemon with three clients that ask to start, to stop and to start again.\<close>

definition up_stop_up :: "gstate \<Rightarrow> locale_state \<Rightarrow> daemon" where
  "up_stop_up g loc = start_daemon True (conn_listener_prog 3 4 9 0 0) g loc
     [LConn 5 True, LConn 6 True, LConn 7 True]
     (\<lambda>fd. control_conn (if fd = 6 then IpcMsg_ShutdownColl else IpcMsg_UpColl))"

text \<open>
  The listener (3) answers each client; the initer (4) starts producer, consumer and switcher (5 to
  7) and, on the way out, has told that it ended before it lowers its flag.
\<close>

lemma start_lost_run:
  assumes "length (de_junkbuf e) = 64" and "get_auth_hint (de_user e) (g_world g) = Ok True"
    and "get_pref_lang (de_user e) (g_world g) = Ok l"
  shows "\<exists>d. daemon_run e
      ([1] @ replicate 12 3 @ replicate 8 4 @ replicate 7 3 @ [4, 4, 7, 7, 5, 5, 7, 7, 6, 6, 7, 7, 4, 4, 4, 4] @
       replicate 10 3 @ [4]) (up_stop_up g loc) = Some (Ok d) \<and>
    d_sent d = [(5, ok_bytes), (6, ok_bytes), (7, ok_bytes)] \<and> \<not> flag_on coll_initer_up d \<and>
    drop 4 (d_threads d) = [[], [], [], []]"
  using assms
  by (simp add: eval_nat_numeral up_stop_up_def conn_listener_prog_def daemon_sim del: exec.simps(8))

definition up_up :: "gstate \<Rightarrow> locale_state \<Rightarrow> daemon" where
  "up_up g loc = start_daemon True (conn_listener_prog 3 4 9 0 0) g loc [LConn 5 True, LConn 6 True]
     (\<lambda>fd. control_conn IpcMsg_UpColl)"

lemma double_start_run:
  assumes "length (de_junkbuf e) = 64" and "get_auth_hint (de_user e) (g_world g) = Ok True"
    and "get_pref_lang (de_user e) (g_world g) = Ok l"
  shows "\<exists>d. daemon_run e ([1] @ replicate 30 3 @ replicate 8 4 @ replicate 8 5) (up_up g loc) = Some (Ok d) \<and>
    d_sent d = [(5, ok_bytes), (6, ok_bytes)] \<and>
    length (filter (\<lambda>p. p = producer_prog) (d_threads d)) = 2"
  using assms
  by (simp add: eval_nat_numeral up_up_def conn_listener_prog_def daemon_sim del: exec.simps(8))

text \<open>
  C23: Starting and stopping the collector is not reliable although every client is told success.
  With a logged-in account there is a run of the daemon in which, after a start and a completed
  stop, a second start is answered with success while no collector is running at the end, because
  the initer reports its end before it lowers the flag that the start looks at; and there is a run
  in which two starts in a row set up two collectors, because only the initer raises that flag.
\<close>

theorem collector_control_races:
  assumes "length (de_junkbuf e) = 64" and "get_auth_hint (de_user e) (g_world g) = Ok True"
    and "get_pref_lang (de_user e) (g_world g) = Ok l"
  shows "(\<exists>sched d. daemon_run e sched (up_stop_up g loc) = Some (Ok d) \<and>
            d_sent d = [(5, ok_bytes), (6, ok_bytes), (7, ok_bytes)] \<and>
            \<not> flag_on coll_initer_up d \<and> drop 4 (d_threads d) = [[], [], [], []]) \<and>
         (\<exists>sched d. daemon_run e sched (up_up g loc) = Some (Ok d) \<and>
            d_sent d = [(5, ok_bytes), (6, ok_bytes)] \<and>
            length (filter (\<lambda>p. p = producer_prog) (d_threads d)) = 2)"
  using start_lost_run [OF assms] double_start_run [OF assms] by blast

lemma collector_control_witness:
  "\<exists>e g sched d. daemon_run e sched (up_up g \<lparr>host_lang = 0, prefer_lang = 0, proc_locale = []\<rparr>) = Some (Ok d) \<and>
     length (filter (\<lambda>p. p = producer_prog) (d_threads d)) = 2"
proof -
  let ?u = "\<lparr>lck_droot = None, lck_filters = Some ''l'', data_root_majv = ''/h''\<rparr>"
  let ?w = "\<lparr>files = (\<lambda>_. Some ''a''), dirs = {}, deny = (\<lambda>_. False), flock_ok = True, held = {}\<rparr>"
  let ?e = "\<lparr>de_user = ?u, de_avail = (\<lambda>_. True), de_junk = 0, de_junkbuf = replicate 64 0\<rparr>"
  let ?g = "set_world ?w demo_gstate"
  have w: "g_world ?g = ?w" by (simp add: set_world_def)
  have "get_auth_hint ?u ?w = Ok True" by (simp add: auth_hint.get_rd)
  moreover obtain l where "get_pref_lang ?u ?w = Ok l" by (simp add: pref_lang.get_rd)
  ultimately show ?thesis
    using collector_control_races [of ?e ?g l "\<lparr>host_lang = 0, prefer_lang = 0, proc_locale = []\<rparr>"]
    by (simp only: w denv.simps list.size length_replicate) blast
qed

end
