(* ===== verification/DaemonInv.thy ===== *)
theory DaemonInv
  imports Daemon
begin

text \<open>
  What holds in every interleaving of the daemon's workers of \<open>Daemon\<close>. Each worker has a role,
  and a type discipline on instructions says which flags the worker of a role raises and lowers and
  which workers it starts; every step keeps it. From it follow the facts about single flags, and
  that the dequeuer always ends once the server's initer has asked it to.
\<close>

section \<open>Roles and typed instructions\<close>

datatype role =
    RMain | RServer | RDequer | RListener | RColl | RProducer | RConsumer | RSwitcher

text \<open>Connection handlers have the role of the listener, in which the immediate ones run.\<close>

fun may_store :: "role \<Rightarrow> flag \<Rightarrow> bool \<Rightarrow> bool" where
  "may_store RMain f b = False"
| "may_store RServer f b =
     (b \<and> f \<in> {ipcmsg_dequer, q_ipcmsg_has_upd, ipcconn_handler, conn_listener, ipcsrv_initer_succ})"
| "may_store RDequer f b =
     (if f = q_ipcmsg_has_upd then \<not> b else b \<and> f \<in> {ipcmsg_dequer_succ, ipcsrv_initer})"
| "may_store RListener f b =
     (if f \<in> {coll_initer, coll_initer_succ} then True
      else if f \<in> {coll_producer, coll_producer_succ, coll_consumer, coll_consumer_succ, coll_switcher,
                   coll_switcher_succ} then \<not> b
      else b \<and> f \<in> {conn_listener_succ, ipcconn_handler_succ, ipcsrv_initer, q_ipcmsg_has_upd})"
| "may_store RColl f b = (f = coll_initer_up \<or> b \<and> f \<in> {coll_switcher, coll_initer_succ})"
| "may_store RProducer f b = (b \<and> f = coll_producer_succ)"
| "may_store RConsumer f b = (b \<and> f = coll_consumer_succ)"
| "may_store RSwitcher f b = (b \<and> f \<in> {coll_producer, coll_consumer, coll_switcher_succ})"

fun may_spawn :: "role \<Rightarrow> role \<Rightarrow> bool" where
  "may_spawn RServer r = (r = RListener)"
| "may_spawn RListener r = (r \<in> {RListener, RColl})"
| "may_spawn RColl r = (r \<in> {RProducer, RConsumer, RSwitcher})"
| "may_spawn _ r = False"

fun typed :: "role \<Rightarrow> instr \<Rightarrow> bool" where
  "typed r (Store f b) = may_store r f b"
| "typed r (WaitFor f) = True"
| "typed r (IfFlag f p q) = (list_all (typed r) p \<and> list_all (typed r) q)"
| "typed r (Spawn p) = (\<exists>r'. may_spawn r r' \<and> list_all (typed r') p)"
| "typed r (IfAuth p q) = (r = RColl \<and> list_all (typed r) p \<and> list_all (typed r) q)"
| "typed r SetLocale = (r = RColl)"
| "typed r AwaitAuth = (r = RColl)"
| "typed r InitColl = (r = RColl)"
| "typed r Dequeue = (r = RDequer)"
| "typed r DequerRound = (r = RDequer)"
| "typed r i = (r = RListener)"

abbreviation typed_prog :: "role \<Rightarrow> instr list \<Rightarrow> bool" where
  "typed_prog r p \<equiv> list_all (typed r) p"

definition typed_threads :: "role list \<Rightarrow> daemon \<Rightarrow> bool" where
  "typed_threads rs d = list_all2 typed_prog rs (d_threads d)"

lemma typed_spawn:
  "typed RServer (Spawn p) = typed_prog RListener p"
  "typed RListener (Spawn p) = (typed_prog RListener p \<or> typed_prog RColl p)"
  "typed RColl (Spawn p) = (typed_prog RProducer p \<or> typed_prog RConsumer p \<or> typed_prog RSwitcher p)"
  by auto

declare typed.simps(4) [simp del] typed_spawn [simp]

section \<open>The programs are typed\<close>

lemma flag_on_set_flag [simp]: "flag_on f (set_flag f' b d) = (if f = f' then b else flag_on f d)"
  by (simp add: flag_on_def set_flag_def)

lemma typed_send_reply [simp]: "typed_prog RListener (send_reply fd r)"
  by (simp add: send_reply_def split: sum.split)

lemma typed_pipeline [simp]:
  "typed_prog RProducer producer_prog" "typed_prog RConsumer consumer_prog"
  "typed_prog RSwitcher switcher_prog"
  by (simp_all add: producer_prog_def consumer_prog_def switcher_prog_def)

lemma typed_workers [simp]:
  "typed_prog RColl coll_initer_prog" "typed_prog RMain child_main_prog"
  "typed_prog RDequer dequer_prog" "typed_prog RListener (conn_listener_prog a b c i j)"
  by (simp_all add: coll_initer_prog_def child_main_prog_def dequer_prog_def conn_listener_prog_def)

lemma typed_server [simp]: "typed_prog RListener l \<Longrightarrow> typed_prog RServer (ipc_server_initer_prog ok l)"
  by (simp add: ipc_server_initer_prog_def)

lemma typed_handle_conn [simp]: "typed_prog RListener (handle_conn j fd immd r)"
  by (simp add: handle_conn_def dispatch_msg_def handle_shutipcsrv_msg_def handle_upcoll_msg_def
      handle_shutcoll_msg_def Let_def split: conn_end.split)

lemma typed_rstatus: "rhandle_rstatus e fd d = Ok p \<Longrightarrow> typed_prog RListener p"
  by (auto simp: rhandle_rstatus_def Let_def split: sum.split)

section \<open>Every step keeps the types\<close>

lemma exec_typed:
  assumes "exec e c d = Some (Ok (p, new, d'))" and "typed r c"
  shows "typed_prog r p" and "list_all (\<lambda>q. \<exists>r'. may_spawn r r' \<and> typed_prog r' q) new"
    and "flag_on f d' \<noteq> flag_on f d \<longrightarrow> may_store r f (flag_on f d')"
    and "d_threads d' = d_threads d" and "d_g d' = d_g d \<or> c = InitColl"
proof -
  have "typed_prog r p \<and> list_all (\<lambda>q. \<exists>r'. may_spawn r r' \<and> typed_prog r' q) new \<and>
    (flag_on f d' \<noteq> flag_on f d \<longrightarrow> may_store r f (flag_on f d')) \<and> d_threads d' = d_threads d \<and>
    (d_g d' = d_g d \<or> c = InitColl)"
    using assms
    by (cases c)
      (auto simp: typed.simps(4) listen_round_def dequer_round_def handle_dequeued_def set_locale_def await_auth_def
        if_auth_def enqueue_def deque_def flag_on_def set_flag_def exitMain_def typed_rstatus
        split: option.splits if_splits list.splits listen_event.splits)
  then show "typed_prog r p" and "list_all (\<lambda>q. \<exists>r'. may_spawn r r' \<and> typed_prog r' q) new"
    and "flag_on f d' \<noteq> flag_on f d \<longrightarrow> may_store r f (flag_on f d')"
    and "d_threads d' = d_threads d" and "d_g d' = d_g d \<or> c = InitColl"
    by simp_all
qed

text \<open>The fixed workers keep their places; every worker started later has another role.\<close>

definition late_roles :: "role list \<Rightarrow> bool" where
  "late_roles rs = (set rs \<inter> {RMain, RServer, RDequer} = {})"

definition daemon_typed :: "daemon \<Rightarrow> bool" where
  "daemon_typed d = (\<exists>rs. late_roles rs \<and> typed_threads ([RMain, RServer, RDequer] @ rs) d)"

lemma daemon_step_cases:
  assumes "daemon_step e i d = Some (Ok d')"
  obtains c cs p new d1 where "i < length (d_threads d)" "d_threads d ! i = c # cs"
    "exec e c d = Some (Ok (p, new, d1))" "d' = d1\<lparr>d_threads := (d_threads d)[i := p @ cs] @ new\<rparr>"
    "d_exit d = None"
proof -
  obtain c cs where c: "d_threads d ! i = c # cs" "i < length (d_threads d)" "d_exit d = None"
    using assms by (auto simp: daemon_step_def split: if_splits list.splits)
  then have "map_option (res_map (\<lambda>(p, new, d').
      d'\<lparr>d_threads := (d_threads d)[i := p @ cs] @ new\<rparr>)) (exec e c d) = Some (Ok d')"
    using assms by (simp add: daemon_step_def)
  then obtain p new d1 where "exec e c d = Some (Ok (p, new, d1))"
    "d' = d1\<lparr>d_threads := (d_threads d)[i := p @ cs] @ new\<rparr>"
    by (auto simp: map_option_case split: option.splits)
  with c show thesis using that by blast
qed

lemma flag_on_threads [simp]: "flag_on f (d\<lparr>d_threads := t\<rparr>) = flag_on f d"
  by (simp add: flag_on_def)

lemma roles_of_new:
  assumes "list_all (\<lambda>q. \<exists>r'. may_spawn r r' \<and> typed_prog r' q) new"
  shows "\<exists>rs. late_roles rs \<and> list_all2 typed_prog rs new"
  using assms
proof (induction new)
  case (Cons q new)
  then obtain rs r' where "late_roles rs" "list_all2 typed_prog rs new" "may_spawn r r'" "typed_prog r' q"
    by auto
  moreover have "r' \<notin> {RMain, RServer, RDequer}"
    using \<open>may_spawn r r'\<close> by (cases r) auto
  ultimately show ?case
    by (intro exI [of _ "r' # rs"]) (auto simp: late_roles_def)
qed (auto simp: late_roles_def)

lemma step_typed:
  assumes "late_roles rs" and "typed_threads ([RMain, RServer, RDequer] @ rs) d"
    and "daemon_step e i d = Some (Ok d')"
  shows "\<exists>rs'. late_roles (rs @ rs') \<and> typed_threads ([RMain, RServer, RDequer] @ rs @ rs') d'"
    and "flag_on f d' \<noteq> flag_on f d \<longrightarrow> may_store (([RMain, RServer, RDequer] @ rs) ! i) f (flag_on f d')"
proof -
  let ?rs = "[RMain, RServer, RDequer] @ rs"
  obtain c cs p new d1 where i: "i < length (d_threads d)" "d_threads d ! i = c # cs"
    and ex: "exec e c d = Some (Ok (p, new, d1))"
    and d': "d' = d1\<lparr>d_threads := (d_threads d)[i := p @ cs] @ new\<rparr>"
    using daemon_step_cases [OF assms(3)] by metis
  have "typed_prog (?rs ! i) (c # cs)"
    using list_all2_nthD2 [OF assms(2) [unfolded typed_threads_def] i(1)] i(2) by simp
  then have c: "typed (?rs ! i) c" and cs: "typed_prog (?rs ! i) cs" by simp_all
  obtain rs' where rs': "late_roles rs'" "list_all2 typed_prog rs' new"
    using roles_of_new [OF exec_typed(2) [OF ex c]] by blast
  have "list_all2 typed_prog (?rs[i := ?rs ! i]) ((d_threads d)[i := p @ cs])"
    using assms(2) exec_typed(1) [OF ex c] cs
    by (intro list_all2_update_cong) (simp_all add: typed_threads_def)
  then have "list_all2 typed_prog (?rs @ rs') ((d_threads d)[i := p @ cs] @ new)"
    using rs'(2) by (simp only: list_update_id list_all2_appendI)
  then have "typed_threads ([RMain, RServer, RDequer] @ rs @ rs') d'"
    by (simp add: typed_threads_def d')
  moreover have "late_roles (rs @ rs')"
    using assms(1) rs'(1) by (auto simp: late_roles_def)
  ultimately show "\<exists>rs'. late_roles (rs @ rs') \<and> typed_threads ([RMain, RServer, RDequer] @ rs @ rs') d'"
    by blast
  show "flag_on f d' \<noteq> flag_on f d \<longrightarrow> may_store (?rs ! i) f (flag_on f d')"
    using exec_typed(3) [OF ex c] by (simp add: d')
qed

lemma daemon_typed_start:
  "daemon_typed (start_daemon ok (conn_listener_prog a b c k l) g loc inc conns)"
  by (auto simp: daemon_typed_def typed_threads_def start_daemon_def upAllWorkersOneShot_def late_roles_def
      intro!: exI [of _ "[]"])

text \<open>An invariant of the steps holds along every schedule.\<close>

lemma daemon_run_invariant:
  assumes "daemon_run e sched d = Some (Ok d')" and "P d"
    and "\<And>d i d'. P d \<Longrightarrow> daemon_step e i d = Some (Ok d') \<Longrightarrow> P d'"
  shows "P d'"
  using assms(1,2)
  by (induction sched arbitrary: d) (auto split: option.splits res.splits intro: assms(3))

lemma daemon_typed_step: "daemon_typed d \<Longrightarrow> daemon_step e i d = Some (Ok d') \<Longrightarrow> daemon_typed d'"
  using step_typed(1) unfolding daemon_typed_def by blast

section \<open>Flags that are never lowered\<close>

definition one_way :: "flag \<Rightarrow> bool" where
  "one_way f =
     (f \<in> {conn_listener, conn_listener_succ, ipcsrv_initer, ipcsrv_initer_succ, ipcconn_handler,
           ipcconn_handler_succ, ipcmsg_dequer, ipcmsg_dequer_succ})"

lemma one_way_store: "one_way f \<Longrightarrow> may_store r f b \<Longrightarrow> b"
  by (cases r) (auto simp: one_way_def split: if_splits)

lemma one_way_step:
  assumes "daemon_typed d" and "daemon_step e i d = Some (Ok d')" and "one_way f" and "flag_on f d"
  shows "flag_on f d'"
proof -
  obtain rs where "late_roles rs" "typed_threads ([RMain, RServer, RDequer] @ rs) d"
    using assms(1) by (auto simp: daemon_typed_def)
  from step_typed(2) [OF this assms(2), of f] show ?thesis using one_way_store assms(3,4) by blast
qed

text \<open>
  C12: Type discipline of the daemon. In every state that some interleaving reaches, the main thread,
  the server's initer and the dequeuer have their places, and every worker is a well-typed list of
  instructions of its role, so that it raises and lowers only the flags of that role; in particular
  the flags that stop listener, dequeuer and server, once raised, stay raised.
\<close>

theorem daemon_flags_typed:
  assumes "daemon_run e sched (start_daemon ok (conn_listener_prog a b c k l) g loc inc conns) = Some (Ok d)"
    and "daemon_run e sched' d = Some (Ok d')" and "one_way f" and "flag_on f d"
  shows "daemon_typed d \<and> daemon_typed d' \<and> flag_on f d'"
proof -
  have d: "daemon_typed d"
    using daemon_run_invariant [OF assms(1), of daemon_typed] daemon_typed_start daemon_typed_step by blast
  have "daemon_typed d' \<and> flag_on f d'"
    using daemon_run_invariant [OF assms(2), of "\<lambda>d. daemon_typed d \<and> flag_on f d"] d assms(4)
      daemon_typed_step one_way_step [OF _ _ assms(3)] by blast
  with d show ?thesis by blast
qed

section \<open>The dequeuer ends\<close>

text \<open>
  The shapes of the dequeuer's remaining instructions, with the steps that it needs to the end, once
  it is asked to stop.
\<close>

abbreviation dq_loop :: "instr list" where
  "dq_loop \<equiv> [WaitFor q_ipcmsg_has_upd, Store q_ipcmsg_has_upd False, Dequeue, DequerRound]"

definition dq_left :: "instr list \<Rightarrow> nat option" where
  "dq_left p =
     (if p = [] then Some 0
      else if p = [Store ipcmsg_dequer_succ True] then Some 1
      else if p = [DequerRound] then Some 2
      else if p = [Store ipcsrv_initer True, DequerRound] then Some 3
      else if p = drop 2 dq_loop then Some 4
      else if p = drop 1 dq_loop then Some 5
      else if p = dq_loop then Some 6 else None)"

text \<open>
  What ties server and dequeuer together: the request to stop is raised before the wake-up, and only
  the dequeuer lowers the wake-up.
\<close>

definition stop_inv :: "instr list \<Rightarrow> daemon \<Rightarrow> bool" where
  "stop_inv l d =
     (daemon_typed d \<and> dq_left (d_threads d ! 2) \<noteq> None \<and>
      (d_threads d ! 2 = [] \<longrightarrow> flag_on ipcmsg_dequer_succ d) \<and>
      (\<exists>k \<le> 7. d_threads d ! 1 = drop k (ipc_server_initer_prog True l) \<and>
        (k \<ge> 3 \<longrightarrow> flag_on ipcmsg_dequer d) \<and>
        (k \<ge> 4 \<and> d_threads d ! 2 = dq_loop \<longrightarrow> flag_on q_ipcmsg_has_upd d)))"

lemma typed_length: "daemon_typed d \<Longrightarrow> 3 \<le> length (d_threads d)"
  by (auto simp: daemon_typed_def typed_threads_def dest!: list_all2_lengthD)

lemma other_thread:
  assumes "daemon_step e i d = Some (Ok d')" and "j \<noteq> i" and "j < length (d_threads d)"
  shows "d_threads d' ! j = d_threads d ! j"
proof -
  obtain p new d1 where "d' = d1\<lparr>d_threads := (d_threads d)[i := p] @ new\<rparr>"
    using daemon_step_cases [OF assms(1)] by metis
  with assms(2,3) show ?thesis by (simp add: nth_append)
qed

lemma wake_up_kept:
  assumes "daemon_typed d" and "daemon_step e i d = Some (Ok d')" and "i \<noteq> 2"
    and "flag_on q_ipcmsg_has_upd d"
  shows "flag_on q_ipcmsg_has_upd d'"
proof -
  obtain rs where rs: "late_roles rs" "typed_threads ([RMain, RServer, RDequer] @ rs) d"
    using assms(1) by (auto simp: daemon_typed_def)
  have "i < length (d_threads d)" using assms(2) by (auto elim: daemon_step_cases)
  then have "i < length ([RMain, RServer, RDequer] @ rs)"
    using rs(2) by (auto simp: typed_threads_def dest: list_all2_lengthD)
  then have "([RMain, RServer, RDequer] @ rs) ! i \<noteq> RDequer"
  proof (cases "i < 3")
    case True
    then have "i = 0 \<or> i = 1" using assms(3) by linarith
    then show ?thesis by auto
  next
    case False
    then obtain m where m: "i = 3 + m" using le_Suc_ex [of 3 i] by auto
    then have "rs ! m \<in> set rs" using \<open>i < length ([RMain, RServer, RDequer] @ rs)\<close> by auto
    then show ?thesis using rs(1) m by (auto simp: late_roles_def eval_nat_numeral)
  qed
  moreover have "\<not> may_store r q_ipcmsg_has_upd False" if "r \<noteq> RDequer" for r
    using that by (cases r) auto
  ultimately show ?thesis
    using step_typed(2) [OF rs assms(2), of q_ipcmsg_has_upd] assms(4) by metis
qed

lemma dq_step:
  assumes "dq_left (d_threads d ! 2) = Some n" and "daemon_step e 2 d = Some (Ok d')"
  shows "(if flag_on ipcmsg_dequer d then \<exists>m<n. dq_left (d_threads d' ! 2) = Some m
          else dq_left (d_threads d' ! 2) \<noteq> None)"
    and "d_threads d' ! 2 = [] \<Longrightarrow> flag_on ipcmsg_dequer_succ d'"
    and "d_threads d' ! 2 = dq_loop \<Longrightarrow> \<not> flag_on ipcmsg_dequer d"
proof -
  obtain c cs p new d1 where i: "2 < length (d_threads d)" "d_threads d ! 2 = c # cs"
    and ex: "exec e c d = Some (Ok (p, new, d1))"
    and d': "d' = d1\<lparr>d_threads := (d_threads d)[2 := p @ cs] @ new\<rparr>"
    using daemon_step_cases [OF assms(2)] by metis
  have t: "d_threads d' ! 2 = p @ cs" using i(1) by (simp add: d' nth_append)
  have fl: "flag_on f d' = flag_on f d1" for f by (simp add: d')
  show "(if flag_on ipcmsg_dequer d then \<exists>m<n. dq_left (d_threads d' ! 2) = Some m
          else dq_left (d_threads d' ! 2) \<noteq> None)"
    and "d_threads d' ! 2 = [] \<Longrightarrow> flag_on ipcmsg_dequer_succ d'"
    and "d_threads d' ! 2 = dq_loop \<Longrightarrow> \<not> flag_on ipcmsg_dequer d"
    using assms(1) i(2) ex unfolding t fl
    by (auto simp: dq_left_def dequer_round_def handle_dequeued_def case_prod_beta Let_def
        split: if_splits option.splits)
qed

lemma server_step:
  assumes "daemon_step e 1 d = Some (Ok d')" and "k \<le> 7"
    and "d_threads d ! 1 = drop k (ipc_server_initer_prog True l)"
  shows "k < 7" and "d_threads d' ! 1 = drop (Suc k) (ipc_server_initer_prog True l)"
    and "k = 2 \<Longrightarrow> flag_on ipcmsg_dequer d'" and "k = 3 \<Longrightarrow> flag_on q_ipcmsg_has_upd d'"
proof -
  obtain c cs p new d1 where i: "1 < length (d_threads d)" "d_threads d ! 1 = c # cs"
    and ex: "exec e c d = Some (Ok (p, new, d1))"
    and d': "d' = d1\<lparr>d_threads := (d_threads d)[1 := p @ cs] @ new\<rparr>"
    using daemon_step_cases [OF assms(1)] by metis
  have t: "d_threads d' ! 1 = p @ cs" using i(1) by (simp add: d' nth_append)
  have fl: "flag_on f d' = flag_on f d1" for f by (simp add: d')
  from assms(2) have k: "k \<in> {0, 1, 2, 3, 4, 5, 6, 7}" by auto
  show "k < 7" using i(2) assms(2,3) by (cases "k = 7") (auto simp: ipc_server_initer_prog_def)
  show "d_threads d' ! 1 = drop (Suc k) (ipc_server_initer_prog True l)"
    and "k = 2 \<Longrightarrow> flag_on ipcmsg_dequer d'" and "k = 3 \<Longrightarrow> flag_on q_ipcmsg_has_upd d'"
    using k i(2) assms(3) ex unfolding t fl
    by (auto simp: ipc_server_initer_prog_def split: if_splits)
qed

lemma stop_inv_step:
  assumes inv: "stop_inv l d" and step: "daemon_step e i d = Some (Ok d')"
  shows "stop_inv l d'"
proof -
  obtain k n where ty: "daemon_typed d" and n: "dq_left (d_threads d ! 2) = Some n"
    and succ: "d_threads d ! 2 = [] \<longrightarrow> flag_on ipcmsg_dequer_succ d"
    and k: "k \<le> 7" "d_threads d ! 1 = drop k (ipc_server_initer_prog True l)"
      "k \<ge> 3 \<longrightarrow> flag_on ipcmsg_dequer d"
      "k \<ge> 4 \<and> d_threads d ! 2 = dq_loop \<longrightarrow> flag_on q_ipcmsg_has_upd d"
    using inv by (auto simp: stop_inv_def)
  have ty': "daemon_typed d'" using daemon_typed_step [OF ty step] .
  have len: "1 < length (d_threads d)" "2 < length (d_threads d)" using typed_length [OF ty] by auto
  have keep: "flag_on ipcmsg_dequer d \<Longrightarrow> flag_on ipcmsg_dequer d'"
    "flag_on ipcmsg_dequer_succ d \<Longrightarrow> flag_on ipcmsg_dequer_succ d'"
    using one_way_step [OF ty step] by (auto simp: one_way_def)
  consider (server) "i = 1" | (dequer) "i = 2" | (other) "i \<noteq> 1" "i \<noteq> 2" by blast
  then show ?thesis
  proof cases
    case server
    have t2: "d_threads d' ! 2 = d_threads d ! 2" using other_thread [OF step _ len(2)] server by simp
    note sv = server_step [OF step [unfolded server] k(1,2)]
    have "Suc k \<ge> 3 \<longrightarrow> flag_on ipcmsg_dequer d'" using sv(3) k(3) keep(1) by (cases "k = 2") auto
    moreover have "Suc k \<ge> 4 \<and> d_threads d ! 2 = dq_loop \<longrightarrow> flag_on q_ipcmsg_has_upd d'"
      using sv(4) k(4) wake_up_kept [OF ty step] server by (cases "k = 3") auto
    ultimately show ?thesis
      using sv(1,2) ty' n succ keep(2) unfolding stop_inv_def t2
      by (intro conjI exI [of _ "Suc k"]) auto
  next
    case dequer
    have t1: "d_threads d' ! 1 = d_threads d ! 1" using other_thread [OF step _ len(1)] dequer by simp
    note dq = dq_step [OF n step [unfolded dequer]]
    show ?thesis
      using dq ty' k keep(1) unfolding stop_inv_def t1
      by (intro conjI exI [of _ k]) (auto split: if_splits)
  next
    case other
    have t: "d_threads d' ! 1 = d_threads d ! 1" "d_threads d' ! 2 = d_threads d ! 2"
      using other_thread [OF step _ len(1)] other_thread [OF step _ len(2)] other by auto
    show ?thesis
      using k n succ ty' keep wake_up_kept [OF ty step other(2)] unfolding stop_inv_def t
      by (intro conjI exI [of _ k]) auto
  qed
qed

lemma stop_inv_start:
  "stop_inv (conn_listener_prog a b c k l)
     (start_daemon True (conn_listener_prog a b c k l) g loc inc conns)"
  unfolding stop_inv_def
  by (intro conjI exI [of _ 0])
    (simp_all add: daemon_typed_start, simp_all add: start_daemon_def upAllWorkersOneShot_def
      dequer_prog_def dq_left_def)

text \<open>Once the initer is done, the dequeuer is never kept waiting.\<close>

lemma dq_not_stuck:
  assumes "stop_inv l d" and "d_threads d ! 1 = []" and "d_exit d = None"
    and "dq_left (d_threads d ! 2) = Some n" and "n \<noteq> 0"
  shows "\<exists>m d'. m < n \<and> daemon_step e 2 d = Some (Ok d') \<and> dq_left (d_threads d' ! 2) = Some m \<and>
           d_threads d' ! 1 = [] \<and> d_exit d' = None"
proof -
  obtain k where "k \<le> 7" "[] = drop k (ipc_server_initer_prog True l)" and fl: "k \<ge> 3 \<longrightarrow> flag_on ipcmsg_dequer d"
      "k \<ge> 4 \<and> d_threads d ! 2 = dq_loop \<longrightarrow> flag_on q_ipcmsg_has_upd d"
    using assms(1,2) by (auto simp: stop_inv_def)
  then have k: "k = 7" by (simp add: ipc_server_initer_prog_def)
  have len: "2 < length (d_threads d)" "1 < length (d_threads d)"
    using typed_length [of d] assms(1) by (auto simp: stop_inv_def)
  have "\<exists>d'. daemon_step e 2 d = Some (Ok d') \<and> d_exit d' = None"
    using assms(3-5) fl k len
    by (auto simp: daemon_step_def dq_left_def dequer_round_def handle_dequeued_def case_prod_beta Let_def
        set_flag_def split: if_splits option.splits)
  then obtain d' where step: "daemon_step e 2 d = Some (Ok d')" "d_exit d' = None" by blast
  then show ?thesis
    using dq_step(1) [OF assms(4) step(1)] fl(1) k other_thread [OF step(1) _ len(2)] assms(2) by auto
qed

text \<open>
  C10: The daemon's dequeuer always ends. Whatever the other workers did and in whatever order, once
  the server's initer has finished its part of the shutdown, the dequeuer needs no other worker and at
  most six of its own steps to report its end; the wake-up that the initer sends is never lost.
\<close>

theorem dequeuer_ends:
  assumes "daemon_run e sched (start_daemon True (conn_listener_prog a b c k l) g loc inc conns) = Some (Ok d)"
    and "d_threads d ! 1 = []" and "d_exit d = None"
  shows "\<exists>n d'. n \<le> 6 \<and> daemon_run e (replicate n 2) d = Some (Ok d') \<and> d_threads d' ! 2 = [] \<and>
           flag_on ipcmsg_dequer_succ d'"
proof -
  let ?inv = "stop_inv (conn_listener_prog a b c k l)"
  have inv: "?inv d"
    using daemon_run_invariant [OF assms(1), of ?inv] stop_inv_start stop_inv_step by blast
  then obtain m where m: "dq_left (d_threads d ! 2) = Some m" by (auto simp: stop_inv_def)
  then have "m \<le> 6" by (auto simp: dq_left_def split: if_splits)
  moreover have "\<exists>n \<le> m. \<exists>d'. daemon_run e (replicate n 2) d = Some (Ok d') \<and> ?inv d' \<and>
      dq_left (d_threads d' ! 2) = Some 0"
    using inv assms(2,3) m
  proof (induction m arbitrary: d rule: less_induct)
    case (less m)
    show ?case
    proof (cases "m = 0")
      case True
      with less.prems show ?thesis by (intro exI [of _ 0]) simp
    next
      case False
      obtain m' d1 where m': "m' < m" and step: "daemon_step e 2 d = Some (Ok d1)"
        and d1: "dq_left (d_threads d1 ! 2) = Some m'" "d_threads d1 ! 1 = []" "d_exit d1 = None"
        using dq_not_stuck [OF less.prems(1-4) False] by metis
      have "?inv d1" using stop_inv_step [OF less.prems(1) step] .
      from less.IH [OF m' this d1(2,3,1)] obtain n d' where
        "n \<le> m'" "daemon_run e (replicate n 2) d1 = Some (Ok d')" "?inv d'"
        "dq_left (d_threads d' ! 2) = Some 0" by blast
      with step m' show ?thesis by (intro exI [of _ "Suc n"]) auto
    qed
  qed
  ultimately obtain n d' where "n \<le> 6" "daemon_run e (replicate n 2) d = Some (Ok d')" "?inv d'"
    "dq_left (d_threads d' ! 2) = Some 0" by (meson le_trans)
  moreover from this have "d_threads d' ! 2 = []" by (auto simp: dq_left_def split: if_splits)
  ultimately show ?thesis by (auto simp: stop_inv_def)
qed

section \<open>A shutdown\<close>

lemma exec_read_shutipcsrv:
  assumes "length (de_junkbuf e) = 64" and "d_conns d fd = control_conn IpcMsg_ShutdownIpcSrv" and "fd \<ge> 0"
  shows "exec e (ReadConn fd True) d =
    Some (Ok (handle_shutipcsrv_msg fd @ [Store ipcconn_handler_succ True, CloseFd fd], [], d))"
proof -
  obtain b where "conn_read (de_junkbuf e) (control_conn IpcMsg_ShutdownIpcSrv) = Some (ConnFrame b)"
    "im_type (new_IpcMsg (de_junk e) b) = IpcMsg_ShutdownIpcSrv"
    using conn_read_control [OF assms(1)] by blast
  then show ?thesis
    using assms(2,3) by (simp add: handle_conn_def dispatch_msg_def ipcmsg_type_defs)
qed

definition demo_denv :: denv where
  "demo_denv =
     \<lparr>de_user = \<lparr>lck_droot = None, lck_filters = None, data_root_majv = ''/h''\<rparr>, de_avail = (\<lambda>_. True),
      de_junk = 0, de_junkbuf = replicate 64 0\<rparr>"

definition demo_daemon :: daemon where
  "demo_daemon = start_daemon True (conn_listener_prog 3 4 9 0 0) demo_gstate
     \<lparr>host_lang = 0, prefer_lang = 0, proc_locale = []\<rparr> [LConn 5 True]
     (\<lambda>_. control_conn IpcMsg_ShutdownIpcSrv)"

lemma shutdown_run:
  "\<exists>d. daemon_run demo_denv ([1] @ replicate 7 3 @ replicate 6 1) demo_daemon = Some (Ok d) \<and>
     d_threads d ! 1 = [] \<and> d_exit d = None \<and> flag_on conn_listener d \<and>
     drop 3 (d_threads d) = [[Store ipcconn_handler_succ True, CloseFd 5, ListenRound]]"
proof -
  have "length (de_junkbuf demo_denv) = 64" by (simp add: demo_denv_def)
  then show ?thesis
    by (simp add: eval_nat_numeral demo_daemon_def conn_listener_prog_def daemon_sim
        exec_read_shutipcsrv handle_shutipcsrv_msg_def del: exec.simps(8))
qed

lemma daemon_flags_typed_witness:
  "\<exists>sched d d'. daemon_run demo_denv sched demo_daemon = Some (Ok d) \<and>
     daemon_run demo_denv [3] d = Some (Ok d') \<and> daemon_typed d' \<and> flag_on conn_listener d'"
proof -
  obtain d where d: "daemon_run demo_denv ([1] @ replicate 7 3 @ replicate 6 1) demo_daemon = Some (Ok d)"
    "d_exit d = None" "flag_on conn_listener d"
    "drop 3 (d_threads d) = [[Store ipcconn_handler_succ True, CloseFd 5, ListenRound]]"
    using shutdown_run by metis
  have "3 < length (d_threads d)" using arg_cong [OF d(4), of length] by simp
  moreover from this have "d_threads d ! 3 = [Store ipcconn_handler_succ True, CloseFd 5, ListenRound]"
    using d(4) by (simp add: Cons_nth_drop_Suc [symmetric])
  ultimately obtain d' where d': "daemon_run demo_denv [3] d = Some (Ok d')"
    using d by (auto simp: daemon_step_def)
  have "one_way conn_listener" by (simp add: one_way_def)
  from daemon_flags_typed [OF d(1) [unfolded demo_daemon_def] d' this d(3)] d(1) d' show ?thesis by blast
qed

lemma dequeuer_ends_witness:
  "\<exists>sched d n d'. daemon_run demo_denv sched demo_daemon = Some (Ok d) \<and> n \<le> 6 \<and>
     daemon_run demo_denv (replicate n 2) d = Some (Ok d') \<and> d_threads d' ! 2 = []"
proof -
  obtain d where d: "daemon_run demo_denv ([1] @ replicate 7 3 @ replicate 6 1) demo_daemon = Some (Ok d)"
    "d_threads d ! 1 = []" "d_exit d = None"
    using shutdown_run by metis
  from dequeuer_ends [OF d(1) [unfolded demo_daemon_def] d(2,3)] d(1) show ?thesis by blast
qed

end
