(* ===== verification/Descriptors.thy ===== *)
theory Descriptors
  imports DaemonInv
begin

text \<open>
  Who may use a connection of the daemon of \<open>Daemon\<close>. The right to a descriptor passes from the
  operating system to the worker that handles it and ends when its handler is destroyed: a worker
  that will still write to a connection also closes it, once and later.
\<close>

section \<open>Rights\<close>

text \<open>Programs that name no connection: the workers of the collector, and the listener itself.\<close>

fun no_conn :: "instr \<Rightarrow> bool" where
  "no_conn (Send fd bs) = False"
| "no_conn (CloseFd fd) = False"
| "no_conn (ReadConn fd im) = False"
| "no_conn (ReportStatus fd) = False"
| "no_conn (IfFlag f p q) = (list_all no_conn p \<and> list_all no_conn q)"
| "no_conn (IfAuth p q) = (list_all no_conn p \<and> list_all no_conn q)"
| "no_conn (Spawn p) = list_all no_conn p"
| "no_conn i = True"

fun rights :: "int \<Rightarrow> instr list \<Rightarrow> nat" where
  "rights fd [] = 0"
| "rights fd (c # cs) =
     (case c of CloseFd x \<Rightarrow> of_bool (x = fd) | ReadConn x im \<Rightarrow> of_bool (x = fd) | _ \<Rightarrow> 0) + rights fd cs"

text \<open>A worker that writes to the connection closes it later.\<close>

fun careful :: "int \<Rightarrow> instr list \<Rightarrow> bool" where
  "careful fd [] = True"
| "careful fd (c # cs) =
     ((case c of
         Send x bs \<Rightarrow> x = fd \<longrightarrow> CloseFd fd \<in> set cs
       | ReportStatus x \<Rightarrow> x = fd \<longrightarrow> CloseFd fd \<in> set cs
       | CloseFd x \<Rightarrow> True
       | ReadConn x im \<Rightarrow> True
       | _ \<Rightarrow> no_conn c) \<and> careful fd cs)"

text \<open>What a handler does before it closes its connection \<open>x\<close>.\<close>

definition uses_only :: "int \<Rightarrow> instr \<Rightarrow> bool" where
  "uses_only x c =
     (case c of
        Send y bs \<Rightarrow> y = x
      | ReportStatus y \<Rightarrow> y = x
      | CloseFd y \<Rightarrow> False
      | ReadConn y im \<Rightarrow> False
      | _ \<Rightarrow> no_conn c)"

definition conn_fds :: "listen_event list \<Rightarrow> int list" where
  "conn_fds evs = concat (map (\<lambda>ev. case ev of LConn fd im \<Rightarrow> [fd] | _ \<Rightarrow> []) evs)"

definition sent_to :: "int \<Rightarrow> daemon \<Rightarrow> u8 list list" where
  "sent_to fd d = map snd (filter (\<lambda>m. fst m = fd) (d_sent d))"

definition all_rights :: "int \<Rightarrow> daemon \<Rightarrow> nat" where
  "all_rights fd d =
     count_list (d_closed d) fd + sum_list (map (rights fd) (d_threads d)) +
     count_list (conn_fds (d_incoming d)) fd"

lemma rights_append [simp]: "rights fd (p @ q) = rights fd p + rights fd q"
  by (induction p) auto

lemma careful_append [simp]: "careful fd p \<Longrightarrow> careful fd q \<Longrightarrow> careful fd (p @ q)"
  by (induction p) (auto split: instr.splits)

lemma no_conn_careful [simp]:
  assumes "list_all no_conn p"
  shows "careful fd p" and "rights fd p = 0"
  using assms by (induction p) (auto split: instr.splits)

lemma careful_cases:
  "careful fd (c # cs) \<Longrightarrow>
     (\<exists>x. c = ReportStatus x) \<or> (\<exists>x im. c = ReadConn x im) \<or> (\<exists>x bs. c = Send x bs) \<or>
     (\<exists>x. c = CloseFd x) \<or> no_conn c"
  by (cases c) simp_all

lemma close_rights: "CloseFd fd \<in> set p \<Longrightarrow> 0 < rights fd p"
  by (induction p) auto

lemma conn_fds_Cons [simp]:
  "conn_fds (LTimeout # r) = conn_fds r" "conn_fds (LFail # r) = conn_fds r"
  "conn_fds (LConn fd im # r) = fd # conn_fds r"
  by (simp_all add: conn_fds_def)

section \<open>The programs are careful\<close>

lemma no_conn_workers [simp]:
  "list_all no_conn coll_initer_prog" "list_all no_conn child_main_prog"
  "list_all no_conn dequer_prog" "list_all no_conn (conn_listener_prog a b c i j)"
  by (simp_all add: coll_initer_prog_def child_main_prog_def dequer_prog_def conn_listener_prog_def
      producer_prog_def consumer_prog_def switcher_prog_def)

lemma no_conn_server [simp]: "list_all no_conn l \<Longrightarrow> list_all no_conn (ipc_server_initer_prog ok l)"
  by (simp add: ipc_server_initer_prog_def)

lemma rights_send_reply [simp]: "rights fd (send_reply x m) = 0"
  by (simp add: send_reply_def split: sum.split)

lemma rights_dispatch [simp]: "rights fd (dispatch_msg x im m) = 0"
  by (simp add: dispatch_msg_def handle_shutipcsrv_msg_def handle_upcoll_msg_def handle_shutcoll_msg_def)

lemma careful_before_close:
  assumes "list_all (uses_only x) p" and "x = fd \<Longrightarrow> CloseFd fd \<in> set cs" and "careful fd cs"
  shows "careful fd (p @ cs)"
  using assms by (induction p) (auto simp: uses_only_def split: instr.splits)

lemma uses_only_simps [simp]:
  "uses_only x (Send y bs) = (y = x)" "uses_only x (ReportStatus y) = (y = x)"
  "uses_only x (Store f b)" "uses_only x (WaitFor f)" "uses_only x (Enqueue m)" "uses_only x ExitMain"
  "uses_only x (IfFlag f p q) = (list_all no_conn p \<and> list_all no_conn q)"
  by (simp_all add: uses_only_def)

lemma dispatch_uses_only [simp]: "list_all (uses_only x) (dispatch_msg x im m)"
  by (simp add: dispatch_msg_def handle_shutipcsrv_msg_def handle_upcoll_msg_def handle_shutcoll_msg_def)

lemma send_reply_uses_only [simp]: "list_all (uses_only x) (send_reply x r)"
  by (simp add: send_reply_def split: sum.split)

lemma handle_conn_rights:
  assumes "0 \<le> fd"
  shows "careful fd (handle_conn j x im r)" and "rights fd (handle_conn j x im r) \<le> of_bool (x = fd)"
proof -
  show "careful fd (handle_conn j x im r)"
  proof (cases r)
    case ConnGiveup
    then show ?thesis
      using assms by (auto simp: handle_conn_def Let_def intro!: careful_before_close [of x])
  next
    case (ConnFrame b)
    then show ?thesis
      using assms by (auto simp: handle_conn_def Let_def simp del: careful_append intro!: careful_before_close [of x])
  qed (simp add: handle_conn_def)
  show "rights fd (handle_conn j x im r) \<le> of_bool (x = fd)"
    by (simp add: handle_conn_def Let_def split: conn_end.split)
qed

lemma rstatus_shape:
  assumes "rhandle_rstatus e x d = Ok p"
  shows "p = [ExitMain] \<or> (\<exists>a b. p = [Send x a, Send x b])"
proof -
  obtain r y where "p = (case r of Inl (ec :: ErrCode) \<Rightarrow> [ExitMain]
      | Inr m \<Rightarrow> [Send x (ipcmsg_data m), Send x (take (unat (im_extargs_len m)) y)])"
    using assms unfolding rhandle_rstatus_def Let_def by (simp only: res_bind_Ok_iff res_map_Ok_iff) blast
  then show ?thesis by (cases r) auto
qed

section \<open>Every step keeps the rights\<close>

text \<open>The instructions that touch no connection leave what concerns them as it is.\<close>

lemma exec_no_conn:
  assumes "exec e c d = Some (Ok (p, new, d'))" and "no_conn c" and "c \<noteq> ListenRound"
  shows "list_all no_conn p" and "list_all (list_all no_conn) new"
    and "d_closed d' = d_closed d" and "d_incoming d' = d_incoming d" and "d_sent d' = d_sent d"
proof -
  have "list_all no_conn p \<and> list_all (list_all no_conn) new \<and> d_closed d' = d_closed d \<and>
      d_incoming d' = d_incoming d \<and> d_sent d' = d_sent d"
    using assms
    by (cases c)
      (auto simp: dequer_round_def handle_dequeued_def set_locale_def await_auth_def if_auth_def
        set_flag_def exitMain_def case_prod_beta Let_def split: if_splits option.splits)
  then show "list_all no_conn p" and "list_all (list_all no_conn) new"
    and "d_closed d' = d_closed d" and "d_incoming d' = d_incoming d" and "d_sent d' = d_sent d"
    by simp_all
qed

lemma exec_rights:
  assumes "exec e c d = Some (Ok (p, new, d'))" and "0 \<le> fd" and "careful fd (c # cs)"
  shows "careful fd (p @ cs)" and "list_all (careful fd) new"
    and "count_list (d_closed d') fd + rights fd p + sum_list (map (rights fd) new) +
           count_list (conn_fds (d_incoming d')) fd \<le>
         count_list (d_closed d) fd + rights fd [c] + count_list (conn_fds (d_incoming d)) fd"
    and "sent_to fd d' = sent_to fd d \<or> 0 < rights fd (c # cs)"
proof -
  have "careful fd (p @ cs) \<and> list_all (careful fd) new \<and>
    count_list (d_closed d') fd + rights fd p + sum_list (map (rights fd) new) +
           count_list (conn_fds (d_incoming d')) fd \<le>
         count_list (d_closed d) fd + rights fd [c] + count_list (conn_fds (d_incoming d)) fd \<and>
    (sent_to fd d' = sent_to fd d \<or> 0 < rights fd (c # cs))"
  proof -
    consider (report) x where "c = ReportStatus x" | (read) x im where "c = ReadConn x im"
      | (listen) "c = ListenRound" | (send) x bs where "c = Send x bs" | (close) x where "c = CloseFd x"
      | (other) "no_conn c" "c \<noteq> ListenRound"
      using careful_cases [OF assms(3)] by blast
    then show ?thesis
    proof cases
      case report
      with assms(1) have "rhandle_rstatus e x d = Ok p" "new = []" "d' = d" by auto
      with rstatus_shape [OF this(1)] assms(3) report show ?thesis by auto
    next
      case read
      with assms(1) obtain r where "p = handle_conn (de_junk e) x im r" "new = []" "d' = d"
        by (auto split: option.splits)
      with handle_conn_rights [OF assms(2), of "de_junk e" x im r] assms(3) read show ?thesis by auto
    next
      case listen
      with assms show ?thesis
        by (auto simp: listen_round_def sent_to_def split: if_splits list.splits listen_event.splits)
    next
      case send
      with assms(1) have "p = []" "new = []" "d' = d\<lparr>d_sent := d_sent d @ [(x, bs)]\<rparr>" by simp_all
      moreover have "x = fd \<Longrightarrow> 0 < rights fd cs" using assms(3) send close_rights by simp
      ultimately show ?thesis using assms(3) send by (cases "x = fd") (simp_all add: sent_to_def)
    next
      case close
      with assms(1) have "p = []" "new = []" "d' = d\<lparr>d_closed := d_closed d @ [x]\<rparr>" by simp_all
      with assms(3) close show ?thesis by (simp add: sent_to_def)
    next
      case other
      note keep = exec_no_conn [OF assms(1) other(1,2)]
      have "list_all (careful fd) new" "sum_list (map (rights fd) new) = 0"
        using keep(2) by (induction new) auto
      moreover have "rights fd [c] = 0" using no_conn_careful(2) [of "[c]" fd] other(1) by simp
      ultimately show ?thesis using keep assms(3) by (simp add: sent_to_def)
    qed
  qed
  then show "careful fd (p @ cs)" and "list_all (careful fd) new"
    and "count_list (d_closed d') fd + rights fd p + sum_list (map (rights fd) new) +
           count_list (conn_fds (d_incoming d')) fd \<le>
         count_list (d_closed d) fd + rights fd [c] + count_list (conn_fds (d_incoming d)) fd"
    and "sent_to fd d' = sent_to fd d \<or> 0 < rights fd (c # cs)"
    by simp_all
qed

definition rights_inv :: "int \<Rightarrow> nat \<Rightarrow> daemon \<Rightarrow> bool" where
  "rights_inv fd n d = (list_all (careful fd) (d_threads d) \<and> all_rights fd d \<le> n)"

lemma rights_step:
  assumes "rights_inv fd n d" and "0 \<le> fd" and "daemon_step e i d = Some (Ok d')"
  shows "rights_inv fd n d'" and "n \<le> 1 \<Longrightarrow> fd \<in> set (d_closed d) \<Longrightarrow> sent_to fd d' = sent_to fd d"
proof -
  let ?s = "\<lambda>d. sum_list (map (rights fd) (d_threads d))"
  obtain c cs p new d1 where i: "i < length (d_threads d)" "d_threads d ! i = c # cs"
    and ex: "exec e c d = Some (Ok (p, new, d1))"
    and d': "d' = d1\<lparr>d_threads := (d_threads d)[i := p @ cs] @ new\<rparr>"
    using daemon_step_cases [OF assms(3)] by metis
  have all: "list_all (careful fd) (d_threads d)" and n: "all_rights fd d \<le> n"
    using assms(1) by (simp_all add: rights_inv_def)
  have "careful fd (c # cs)" using all i by (metis list_all_length)
  note ex = exec_rights [OF ex assms(2) this]
  have le: "rights fd (c # cs) \<le> ?s d"
    using i elem_le_sum_list [of i "map (rights fd) (d_threads d)"] by simp
  have "list_all (careful fd) (d_threads d')"
    using all ex(1,2) i(1) by (auto simp: d' list_all_iff dest: set_update_subset_insert [THEN subsetD])
  moreover have "?s d' = ?s d + rights fd (p @ cs) - rights fd (c # cs) + sum_list (map (rights fd) new)"
    using i by (simp add: d' map_update sum_list_update)
  then have "?s d' + rights fd [c] = ?s d + rights fd p + sum_list (map (rights fd) new)"
    using le by simp
  then have "all_rights fd d' \<le> n"
    using ex(3) n by (simp add: all_rights_def d')
  ultimately show "rights_inv fd n d'" by (simp add: rights_inv_def)
  show "sent_to fd d' = sent_to fd d" if "n \<le> 1" "fd \<in> set (d_closed d)"
  proof -
    have "0 < count_list (d_closed d) fd" using that(2) by (meson count_list_0_iff neq0_conv)
    with n that(1) have "?s d = 0" unfolding all_rights_def by linarith
    with le ex(4) show ?thesis by (simp add: d' sent_to_def)
  qed
qed

lemma closed_step: "daemon_step e i d = Some (Ok d') \<Longrightarrow> set (d_closed d) \<subseteq> set (d_closed d')"
proof -
  assume "daemon_step e i d = Some (Ok d')"
  then obtain c p new d1 where "exec e c d = Some (Ok (p, new, d1))" "d_closed d' = d_closed d1"
    by (elim daemon_step_cases) simp
  then show ?thesis
    by (cases c) (auto simp: listen_round_def dequer_round_def handle_dequeued_def set_locale_def
        await_auth_def if_auth_def set_flag_def exitMain_def case_prod_beta Let_def
        split: option.splits if_splits list.splits listen_event.splits)
qed

lemma silent_after_close:
  assumes "daemon_run e sched d = Some (Ok d')" and "rights_inv fd n d" and "0 \<le> fd" and "n \<le> 1"
    and "fd \<in> set (d_closed d)"
  shows "sent_to fd d' = sent_to fd d"
  using assms(1,2,5)
proof (induction sched arbitrary: d)
  case (Cons i sched)
  then obtain d1 where "daemon_step e i d = Some (Ok d1)" "daemon_run e sched d1 = Some (Ok d')"
    by (auto split: option.splits res.splits)
  with Cons rights_step [OF Cons.prems(2) assms(3), of e i d1] closed_step [of e i d d1] assms(4)
  show ?case by auto
qed simp

text \<open>
  C11: In every interleaving of the daemon's workers, a connection is closed at most as often as it was
  accepted, although each handler object exists in two copies when it runs in its own worker, and once
  a descriptor that is accepted only once has been closed, nothing is written to it any more, whatever
  the workers do next.
\<close>

theorem connections_closed_once:
  assumes "daemon_run e sched (start_daemon ok (conn_listener_prog a b c k l) g loc inc conns) = Some (Ok d)"
    and "0 \<le> fd"
  shows "count_list (d_closed d) fd + count_list (conn_fds (d_incoming d)) fd \<le> count_list (conn_fds inc) fd \<and>
    (count_list (conn_fds inc) fd \<le> 1 \<and> fd \<in> set (d_closed d) \<and> daemon_run e later d = Some (Ok d') \<longrightarrow>
       sent_to fd d' = sent_to fd d)"
proof -
  let ?n = "count_list (conn_fds inc) fd"
  have "rights_inv fd ?n (start_daemon ok (conn_listener_prog a b c k l) g loc inc conns)"
    by (simp add: rights_inv_def all_rights_def start_daemon_def upAllWorkersOneShot_def)
  then have inv: "rights_inv fd ?n d"
    using daemon_run_invariant [OF assms(1), of "rights_inv fd ?n"] rights_step(1) assms(2) by blast
  then show ?thesis
    using silent_after_close [OF _ inv assms(2)] by (auto simp: rights_inv_def all_rights_def)
qed

lemma closing_run:
  "\<exists>d d'. daemon_run demo_denv ([1] @ replicate 9 3) demo_daemon = Some (Ok d) \<and>
     daemon_run demo_denv [2, 1] d = Some (Ok d') \<and> d_closed d = [5] \<and> sent_to 5 d = [ok_bytes]"
proof -
  have "length (de_junkbuf demo_denv) = 64" by (simp add: demo_denv_def)
  then show ?thesis
    by (simp add: eval_nat_numeral demo_daemon_def conn_listener_prog_def daemon_sim dequer_round_def sent_to_def
        exec_read_shutipcsrv handle_shutipcsrv_msg_def del: exec.simps(8))
qed

lemma connections_closed_witness:
  "\<exists>sched d d'. daemon_run demo_denv sched demo_daemon = Some (Ok d) \<and> count_list (d_closed d) 5 = 1 \<and>
     daemon_run demo_denv [2, 1] d = Some (Ok d') \<and> sent_to 5 d' = [ok_bytes]"
proof -
  obtain d d' where d: "daemon_run demo_denv ([1] @ replicate 9 3) demo_daemon = Some (Ok d)"
    "daemon_run demo_denv [2, 1] d = Some (Ok d')" "d_closed d = [5]" "sent_to 5 d = [ok_bytes]"
    using closing_run by blast
  have "count_list (conn_fds [LConn 5 True]) 5 = 1" by (simp add: conn_fds_def)
  with connections_closed_once [OF d(1) [unfolded demo_daemon_def], of 5 "[2, 1]" d'] d
  show ?thesis by (intro exI [of _ "[1] @ replicate 9 3"] exI [of _ d] exI [of _ d']) simp
qed

end
