(* ===== verification/Cli.thy ===== *)
theory Cli
  imports TdAuth Daemon FilterStore
begin

text \<open>
  The command line, \<open>src/src/tgfocus.cc\<close>. What the operating system, the editor and the
  libraries answer is the record \<open>cenv\<close>; standard output is collected, standard error is left out.
\<close>

section \<open>State and environment\<close>

record cli =
  cl_world :: world
  cl_loc :: locale_state
  cl_debug :: bool
  cl_out :: string

text \<open>
  How a command ends: it returns, calls \<open>exit\<close>, does not return on the answers at hand, runs into
  undefined behaviour or an uncaught exception, or becomes the daemon.
\<close>

datatype run_end = Returns int cli | Exits int cli | Hangs | Crashes | BecomesDaemon cli

text \<open>One connection to the daemon.\<close>

record net =
  ne_socket :: int
  ne_connect :: int
  ne_send :: int
  ne_recv :: "u8 list option"
  ne_reads :: "u8 list option list"
  ne_junk :: u32

record 're cenv =
  ke_user :: UserData
  ke_avail :: "string \<Rightarrow> bool"
  ke_ndebug :: bool
  ke_net :: net
  ke_net2 :: net
  ke_signal_ok :: bool
  ke_fork :: int
  ke_remove :: "string \<Rightarrow> world \<Rightarrow> bool \<times> world"
  ke_editor :: "string option"
  ke_exists :: "string \<Rightarrow> bool"
  ke_system :: "string \<Rightarrow> world \<Rightarrow> world"
  ke_toml_ok :: "string \<Rightarrow> bool"
  ke_toml :: "string \<Rightarrow> toml_table list option"
  ke_eng :: "'re engine"
  ke_i0 :: nat
  ke_bkt :: "nat \<Rightarrow> nat \<Rightarrow> nat"
  ke_is_auth0 :: bool
  ke_input :: string
  ke_login :: "(u64 \<times> Object option) list"
  ke_close :: "(u64 \<times> Object option) list"

definition put_out :: "string \<Rightarrow> cli \<Rightarrow> cli" where
  "put_out l s = s\<lparr>cl_out := cl_out s @ l\<rparr>"

definition put_line :: "string \<Rightarrow> cli \<Rightarrow> cli" where
  "put_line l s = put_out (l @ [CHR 0x0A]) s"

definition TDLIB_VER :: string where
  "TDLIB_VER = ''1.8.50''"

definition TDLIB_SRC :: string where
  "TDLIB_SRC = ''0857d7e909418c3c3b51a38abe3336b9f32c41fd''"

section \<open>Help, version and language\<close>

definition usage_text :: "string \<Rightarrow> string" where
  "usage_text argv0 =
     ''TG-Focus'' @ [CHR 0x0A] @
     [CHR 0x0A] @
     ''Usage: '' @ argv0 @ '' [command]'' @ [CHR 0x0A] @
     [CHR 0x0A] @
     ''Available Commands:'' @ [CHR 0x0A] @
     ''  auth              Log in Telegram account'' @ [CHR 0x0A] @
     ''  auth-reset        Log out Telegram account'' @ [CHR 0x0A] @
     ''  quickstart        Start up everyhing'' @ [CHR 0x0A] @
     ''  shutdown          Shutdown everyhing'' @ [CHR 0x0A] @
     ''  startup           Start up the daemon'' @ [CHR 0x0A] @
     ''  focus-start       Start up the message collector (resume)'' @ [CHR 0x0A] @
     ''  focus-stop        Stop the message collector (pause)'' @ [CHR 0x0A] @
     ''  auth-cust-api     Log in Telegram (with provided API ID and API HASH)'' @ [CHR 0x0A] @
     ''  filters           Customize focus filter(s)'' @ [CHR 0x0A] @
     ''  use-chat          Initialize TG-FOCUS chat as a basic group (default)'' @ [CHR 0x0A] @
     ''  use-channel       Initialize TG-FOCUS chat as a super group'' @ [CHR 0x0A] @
     ''  lang <LANG_CODE>  Program-wide language preference. tg-focus will try to'' @ [CHR 0x0A] @
     ''                    use the language as long as supported by the host OS.'' @ [CHR 0x0A] @
     ''  version           Print version information'' @ [CHR 0x0A] @
     ''  help              Print this message'' @ [CHR 0x0A]"

definition print_usage :: "string list \<Rightarrow> cli \<Rightarrow> run_end" where
  "print_usage argv s = Returns 0 (put_out (usage_text (argv ! 0)) s)"

definition version_text :: "bool \<Rightarrow> locale_state \<Rightarrow> string" where
  "version_text ndebug l =
     ''TG-Focus:     '' @ TF_VER @ [CHR 0x0A] @
     ''Language:     '' @ lang_to_cstr (host_lang l) @ [CHR 0x0A] @
     ''Default Chat: '' @ TF_COLL_CHAT_TITLE ndebug @ [CHR 0x0A] @
     ''Device ID:    '' @ TF_DEV ndebug @ [CHR 0x0A] @
     ''TDLib:        '' @ TDLIB_VER @ ''('' @ TDLIB_SRC @ '')'' @ [CHR 0x0A] @
     [CHR 0x0A] @
     ''Copyright (C) 2023-2025 Michael Lee <micl2e2@proton.me> and contributors'' @ [CHR 0x0A] @
     ''License GPLv3+: GNU GPL version 3 or later <https://gnu.org/licenses/gpl.html>.'' @ [CHR 0x0A] @
     ''This is free software: you are free to change and redistribute it.'' @ [CHR 0x0A] @
     ''There is NO WARRANTY, to the extent permitted by law.'' @ [CHR 0x0A]"

definition ensure_locale :: "'re cenv \<Rightarrow> cli \<Rightarrow> cli" where
  "ensure_locale e s = s\<lparr>cl_loc := snd (try_ensure_locale (ke_avail e) (cl_loc s))\<rparr>"

text \<open>A second reading of the option, which nothing calls.\<close>

definition handle_loglv :: "string list \<Rightarrow> cli \<Rightarrow> cli" where
  "handle_loglv argv s =
     (if length argv > 2 \<and> list_ex (\<lambda>a. a = ''--verbose'') (drop 1 argv) then s\<lparr>cl_debug := True\<rparr> else s)"

definition handle_version :: "'re cenv \<Rightarrow> cli \<Rightarrow> run_end" where
  "handle_version e s =
     (case get_pref_lang (ke_user e) (cl_world s) of
        Undef \<Rightarrow> Crashes
      | Ok l \<Rightarrow>
          (let s1 = ensure_locale e (s\<lparr>cl_loc := (cl_loc s)\<lparr>prefer_lang := l\<rparr>\<rparr>)
           in Returns 0 (put_out (version_text (ke_ndebug e) (cl_loc s1)) s1)))"

text \<open>The comma in the output expression leaves only its last operand.\<close>

definition handle_lang :: "'re cenv \<Rightarrow> string \<Rightarrow> cli \<Rightarrow> run_end" where
  "handle_lang e lang_code s =
     (let l = lang_from_cstr lang_code
      in case set_pref_lang (ke_user e) l (cl_world s) of
           Undef \<Rightarrow> Crashes
         | Ok w \<Rightarrow>
             (let s1 = ensure_locale e (s\<lparr>cl_world := w, cl_loc := (cl_loc s)\<lparr>prefer_lang := l\<rparr>\<rparr>);
                  is_good = (host_lang (cl_loc s1) = l);
                  s2 = put_line (if is_good then ''done'' else ''failed'') s1
              in Returns (if is_good then 0 else 1) s2))"

section \<open>Login\<close>

definition handle_auth :: "'re cenv \<Rightarrow> bool \<Rightarrow> cli \<Rightarrow> run_end" where
  "handle_auth e useProvidedApiPass s =
     (case TdAuth_loop (ke_user e) (ke_ndebug e) (ke_login e)
             (new_TdAuth (ke_bkt e) useProvidedApiPass (ke_is_auth0 e) (cl_world s) (ke_input e)) of
        None \<Rightarrow> Hangs
      | Some Undef \<Rightarrow> Crashes
      | Some (Ok a) \<Rightarrow>
          (case a_exit a of
             Some n \<Rightarrow> Exits n (s\<lparr>cl_world := a_world a\<rparr>)
           | None \<Rightarrow>
               (case TdAuth_dtor (ke_user e) (ke_ndebug e) (ke_close e) a of
                  None \<Rightarrow> Hangs
                | Some Undef \<Rightarrow> Crashes
                | Some (Ok a') \<Rightarrow>
                    let s1 = put_line ''Logged in!'' (s\<lparr>cl_world := a_world a'\<rparr>)
                    in case a_exit a' of Some n \<Rightarrow> Exits n s1 | None \<Rightarrow> Returns 0 s1)))"

definition handle_auth_reset :: "'re cenv \<Rightarrow> cli \<Rightarrow> run_end" where
  "handle_auth_reset e s =
     (case set_auth_hint (ke_user e) False (cl_world s) of
        Undef \<Rightarrow> Crashes
      | Ok w1 \<Rightarrow>
          (let (ok, w2) = ke_remove e (path_tddata (ke_user e)) w1
           in if \<not> ok then Returns 1 (s\<lparr>cl_world := w2\<rparr>)
              else case set_tgfid (ke_user e) (- 1) w2 of
                     Undef \<Rightarrow> Crashes
                   | Ok w3 \<Rightarrow> Returns 0 (put_line ''Reset successfully'' (s\<lparr>cl_world := w3\<rparr>))))"

section \<open>Filters and chats\<close>

definition editor_command :: "'re cenv \<Rightarrow> string" where
  "editor_command e =
     (let fpath = path_filters_tmp (ke_user e)
      in case ke_editor e of
           Some editor \<Rightarrow> editor @ '' '' @ fpath
         | None \<Rightarrow>
             if ke_exists e ''/usr/bin/mg'' then ''/usr/bin/mg'' @ '' '' @ fpath
             else if ke_exists e ''/usr/bin/emacs'' then ''/usr/bin/emacs'' @ '' '' @ ''-Q'' @ '' '' @ fpath
             else if ke_exists e ''/usr/bin/nano'' then ''/usr/bin/nano'' @ '' '' @ fpath
             else if ke_exists e ''/usr/bin/vi'' then ''/usr/bin/vi'' @ '' '' @ fpath
             else [])"

definition handle_filters :: "'re cenv \<Rightarrow> cli \<Rightarrow> run_end" where
  "handle_filters e s =
     (case prepare_filters_tmp (ke_user e) (cl_world s) of
        None \<Rightarrow> Crashes
      | Some (prepared, w1) \<Rightarrow>
          if \<not> prepared then Returns 2 (s\<lparr>cl_world := w1\<rparr>)
          else if length (editor_command e) < 10 then Returns 255 (s\<lparr>cl_world := w1\<rparr>)
          else
            (let w2 = ke_system e (editor_command e) w1;
                 s2 = put_out ''Verifying...'' (s\<lparr>cl_world := w2\<rparr>);
                 fpath = path_filters_tmp (ke_user e)
             in if \<not> (case fopen_r w2 fpath of None \<Rightarrow> False | Some t \<Rightarrow> ke_toml_ok e t)
                then Returns 255 (put_line ''bad(invalid data)'' s2)
                else case read_to_string (fopen_r w2 fpath) of
                       Undef \<Rightarrow> Crashes
                     | Ok r \<Rightarrow>
                         (let filterg = new_FilterGroupToml (ke_eng e) (ke_toml e) (ke_i0 e) (value_or_dash r);
                              s3 = put_out ''Saving...'' (put_line ''good'' s2)
                          in if isEffective filterg then
                               (case res_bind (get_filters_tmp (ke_user e) w2)
                                       (\<lambda>t. set_filters (ke_user e) t w2) of
                                  Undef \<Rightarrow> Crashes
                                | Ok w3 \<Rightarrow> Returns 0 (put_line ''good'' (s3\<lparr>cl_world := w3\<rparr>)))
                             else Returns 255 (put_line ''bad(invalid filters)'' s3))))"

definition handle_super_tgfid :: "'re cenv \<Rightarrow> u8 \<Rightarrow> cli \<Rightarrow> run_end" where
  "handle_super_tgfid e t s =
     (case res_bind (if t = 2 then set_super_tgfid (ke_user e) (cl_world s) else Ok (cl_world s))
             (\<lambda>w. if t = 1 then set_basic_tgfid (ke_user e) w else Ok w) of
        Undef \<Rightarrow> Crashes
      | Ok w \<Rightarrow> Returns 0 (s\<lparr>cl_world := w\<rparr>))"

section \<open>Talking to the daemon\<close>

definition good_client_or_report :: "IpcClient \<Rightarrow> cli \<Rightarrow> bool \<times> cli" where
  "good_client_or_report client s =
     (let ec = c_ec client
      in if ec > 0 then
           if ec = EC_IPCCLIENT_SYSCALL_CONNECT \<or> ec = EC_IPCCLIENT_SYSCALL_CONNECT2 then
             (False, put_line ''(HINT: try `tgfocus quickstart` to get started)''
                       (put_line ''error: initialization failed'' s))
           else (False, put_line (''error: likely a bug, errcode:'' @ show_nat (unat ec)) s)
         else (True, s))"

text \<open>The exchange that \<open>shutdown\<close>, \<open>focus-start\<close>, \<open>focus-stop\<close> and \<open>status\<close> share.\<close>

definition client_call ::
  "net \<Rightarrow> (cli \<Rightarrow> cli) \<Rightarrow> ErrCode + IpcMsg \<Rightarrow> (IpcMsg option \<Rightarrow> cli \<Rightarrow> run_end) \<Rightarrow> cli \<Rightarrow> run_end" where
  "client_call n intro m k s =
     (let client = fst (new_IpcClient (ne_socket n) (ne_connect n));
          (good, s1) = good_client_or_report client s
      in if \<not> good then Returns 1 s1
         else case m of
                Inl ec \<Rightarrow> Exits 1 s1
              | Inr msg \<Rightarrow>
                  (case fst (send_ipcmsg_sync (ne_junk n) (ne_send n) (ne_recv n) (ne_reads n) msg client) of
                     Waiting \<Rightarrow> Hangs
                   | NoReply \<Rightarrow> k None (intro s1)
                   | Reply r \<Rightarrow> k (Some r) (intro s1)))"

definition report_success :: "string \<Rightarrow> IpcMsg option \<Rightarrow> cli \<Rightarrow> run_end" where
  "report_success pubname rsp s =
     (case rsp of
        Some r \<Rightarrow>
          if im_type r = IpcMsg_Success then Returns 0 (put_line (pubname @ ''done'') s)
          else Returns 1 (put_line (pubname @ ''failed'') s)
      | None \<Rightarrow> Returns 1 (put_line (pubname @ ''failed'') s))"

definition handle_shutipcsrv :: "net \<Rightarrow> cli \<Rightarrow> run_end" where
  "handle_shutipcsrv n s =
     client_call n (put_line (''shutdown: '' @ ''processing...(need 10~60s)'')) new_ipcmsg_shutipcsrv
       (report_success ''shutdown: '') s"

definition handle_upcoll :: "net \<Rightarrow> cli \<Rightarrow> run_end" where
  "handle_upcoll n s =
     client_call n (\<lambda>s. s) new_ipcmsg_upcoll (report_success ''focus-start: '') s"

definition handle_shutcoll :: "net \<Rightarrow> cli \<Rightarrow> run_end" where
  "handle_shutcoll n s =
     client_call n (put_line (''focus-stop: '' @ ''processing...(need 10~60s)'')) new_ipcmsg_shutcoll
       (report_success ''focus-stop: '') s"

definition u8vec_to_str :: "u8 list \<Rightarrow> string" where
  "u8vec_to_str u8vec = foldl (\<lambda>s ch. s @ [char_of_byte ch]) [] u8vec"

definition handle_rstatus :: "net \<Rightarrow> cli \<Rightarrow> run_end" where
  "handle_rstatus n s =
     client_call n (\<lambda>s. s) new_ipcmsg_rstatus
       (\<lambda>msg s.
          case msg of
            Some r \<Rightarrow>
              if im_type r = IpcMsg_SuccessReadable then
                (case im_extargs r of
                   None \<Rightarrow> Crashes
                 | Some bytes \<Rightarrow> Returns 1 (put_out (map char_of_byte bytes) s))
              else Returns 1 (put_line (''status: '' @ ''failed'') s)
          | None \<Rightarrow> Returns 1 (put_line (''status: '' @ ''failed'') s)) s"

definition client_active :: "IpcClient \<Rightarrow> bool" where
  "client_active c = (csock c \<ge> 0 \<and> c_ec c = EC_NOERR)"

definition handle_startup_FORK :: "'re cenv \<Rightarrow> cli \<Rightarrow> run_end" where
  "handle_startup_FORK e s =
     (if client_active (fst (new_IpcClient (ne_socket (ke_net e)) (ne_connect (ke_net e)))) then
        Returns 0 (put_line (''startup: '' @ ''already started'') s)
      else if \<not> ke_signal_ok e then Exits 1 s
      else if ke_fork e = -1 then Exits 1 (put_line (''startup: '' @ ''failed'') s)
      else if ke_fork e = 0 then BecomesDaemon s
      else Returns 0 (put_line (''startup: '' @ ''done'') s))"

definition handle_quickstart :: "'re cenv \<Rightarrow> cli \<Rightarrow> run_end" where
  "handle_quickstart e s =
     (case handle_startup_FORK e s of
        Returns ret s1 \<Rightarrow> if ret = 0 then handle_upcoll (ke_net2 e) s1 else Returns ret s1
      | r \<Rightarrow> r)"

section \<open>The program\<close>

fun scan_args :: "string list \<Rightarrow> string \<times> bool \<Rightarrow> string \<times> bool" where
  "scan_args [] r = r"
| "scan_args (a # as) (subcmd, debug) =
     (if a \<noteq> [] \<and> hd a = CHR ''-'' then scan_args as (subcmd, debug \<or> a = ''--verbose'')
      else scan_args as (a, debug))"

lemma scan_args_debug: "snd (scan_args as (subcmd, debug)) = (debug \<or> ''--verbose'' \<in> set as)"
  by (induction as arbitrary: subcmd debug) auto

text \<open>With at least two arguments the two readings of the option agree.\<close>

lemma handle_loglv_scan:
  "length argv > 2 \<Longrightarrow>
     cl_debug (handle_loglv argv s) = snd (scan_args (drop 1 argv) (subcmd, cl_debug s))"
  by (auto simp: handle_loglv_def scan_args_debug list_ex_iff)

definition main :: "'re cenv \<Rightarrow> string list \<Rightarrow> cli \<Rightarrow> run_end" where
  "main e argv s0 =
     (let s1 = ensure_locale e s0
      in if length argv < 2 then print_usage argv s1
         else
           (let (subcmd, debug) = scan_args (drop 1 argv) ([], cl_debug s1); s = s1\<lparr>cl_debug := debug\<rparr>
            in if length subcmd < 1 then print_usage argv s
               else if subcmd = ''startup'' then handle_startup_FORK e s
               else if subcmd = ''shutdown'' then handle_shutipcsrv (ke_net e) s
               else if subcmd = ''focus-start'' then handle_upcoll (ke_net e) s
               else if subcmd = ''focus-stop'' then handle_shutcoll (ke_net e) s
               else if subcmd = ''quickstart'' then handle_quickstart e s
               else if subcmd = ''status'' then handle_rstatus (ke_net e) s
               else if subcmd = ''auth-reset'' then handle_auth_reset e s
               else if subcmd = ''auth'' then handle_auth e True s
               else if subcmd = ''auth-cust-api'' then handle_auth e False s
               else if subcmd = ''filters'' then handle_filters e s
               else if subcmd = ''version'' \<or> subcmd = ''--version'' \<or> subcmd = ''-v'' then handle_version e s
               else if subcmd = ''lang'' then
                 (if length argv \<noteq> 3 then print_usage argv s else handle_lang e (argv ! 2) s)
               else if subcmd = ''use-chat'' then handle_super_tgfid e 1 s
               else if subcmd = ''use-channel'' then handle_super_tgfid e 2 s
               else print_usage argv s))"

section \<open>Editing the filters\<close>

lemma tmp_not_data: "path_filters_tmp u \<notin> set (data_paths u)"
  by (simp add: data_paths_def path_defs path_div_eq_iff)

lemma write_tmp_view:
  assumes "data_ok u w"
  shows "data_ok u (write_file (path_filters_tmp u) t w)"
    and "view u (write_file (path_filters_tmp u) t w) = view u w"
proof -
  have [simp]: "deny (write_file p b w) = deny w" "flock_ok (write_file p b w) = flock_ok w" for p b
    by (simp_all add: write_file_def)
  have fs: "p \<in> set (data_paths u) \<Longrightarrow> files (write_file (path_filters_tmp u) t w) p = files w p" for p
    using tmp_not_data [of u] by (auto simp: write_file_def)
  show ok: "data_ok u (write_file (path_filters_tmp u) t w)"
    using assms by (simp add: data_ok_def list_all_iff fs del: write_file_simps)
  show "view u (write_file (path_filters_tmp u) t w) = view u w"
    unfolding view_eq [OF assms] view_eq [OF ok] by (simp add: fs data_paths_def del: write_file_simps)
qed

lemma read_tmp:
  assumes "\<not> deny w (path_filters_tmp u)"
  shows "fopen_r (write_file (path_filters_tmp u) t w) (path_filters_tmp u) = Some t"
  using assms by (simp add: fopen_r_def write_file_def)

lemma store_tmp:
  assumes "data_ok u w" and "\<not> deny w (path_filters_tmp u)"
    and w2: "w2 = write_file (path_filters_tmp u) t w"
  shows "\<exists>w3. res_bind (get_filters_tmp u w2) (\<lambda>t. set_filters u t w2) = Ok w3 \<and> data_ok u w3 \<and>
    view u w3 = res_map (abs_update (SetFilters (readable t))) (view u w)"
proof -
  have "get_filters_tmp u w2 = Ok (readable t)"
    using read_readable [of t] read_tmp [OF assms(2)] by (simp add: get_filters_tmp_def w2)
  moreover obtain w3 where "apply_update u (SetFilters (readable t)) w2 = Ok w3" "data_ok u w3"
    "view u w3 = res_map (abs_update (SetFilters (readable t))) (view u w2)"
    using update_view [of u w2] write_tmp_view(1) [OF assms(1)] w2 by blast
  ultimately show ?thesis using write_tmp_view(2) [OF assms(1)] w2 by simp
qed

lemma handle_filters_spec:
  assumes ok: "data_ok (ke_user e) (cl_world s)"
    and open_tmp: "\<not> deny (cl_world s) (path_filters_tmp (ke_user e))"
    and cmd: "10 \<le> length (editor_command e)"
    and editor: "ke_system e (editor_command e) = write_file (path_filters_tmp (ke_user e)) t"
  shows "\<exists>r s'. handle_filters e s = Returns r s' \<and> data_ok (ke_user e) (cl_world s') \<and>
    (if ke_toml_ok e t \<and> ke_toml e (readable t) \<noteq> Some [] then
       r = 0 \<and> view (ke_user e) (cl_world s') =
         res_map (abs_update (SetFilters (readable t))) (view (ke_user e) (cl_world s))
     else r = 255 \<and> view (ke_user e) (cl_world s') = view (ke_user e) (cl_world s))"
proof -
  let ?u = "ke_user e" and ?tmp = "path_filters_tmp (ke_user e)" and ?w = "cl_world s"
  obtain c where c: "files ?w (path_filters ?u) = Some c"
    using ok by (auto simp: data_ok_def data_paths_def)
  let ?w1 = "write_file ?tmp c ?w"
  let ?w2 = "write_file ?tmp t ?w1"
  have w2: "?w2 = write_file ?tmp t ?w" by (simp add: write_file_def)
  have prep: "prepare_filters_tmp ?u ?w = Some (True, ?w1)" by (simp add: prepare_filters_tmp_def c)
  have rd: "fopen_r ?w2 ?tmp = Some t" using read_tmp [OF open_tmp] by (simp only: w2)
  obtain r where r: "read_to_string (Some t) = Ok r" "value_or_dash r = readable t"
    using read_readable [of t] by (cases "read_to_string (Some t)") auto
  have eff: "isEffective (new_FilterGroupToml (ke_eng e) (ke_toml e) (ke_i0 e) (readable t)) \<longleftrightarrow>
      ke_toml e (readable t) \<noteq> Some []"
    by (auto simp: isEffective_def new_FilterGroupToml_def split: option.splits)
  have unchanged: "data_ok ?u ?w2" "view ?u ?w2 = view ?u ?w"
    unfolding w2 using write_tmp_view [OF ok] by auto
  obtain w3 where w3: "res_bind (get_filters_tmp ?u ?w2) (\<lambda>t. set_filters ?u t ?w2) = Ok w3"
    "data_ok ?u w3" "view ?u w3 = res_map (abs_update (SetFilters (readable t))) (view ?u ?w)"
    using store_tmp [OF ok open_tmp w2] by blast
  have len: "\<not> length (editor_command e) < 10" using cmd by simp
  show ?thesis
  proof (cases "ke_toml_ok e t")
    case False
    then show ?thesis
      using unchanged len by (simp add: handle_filters_def prep editor rd put_out_def put_line_def Let_def)
  next
    case True
    show ?thesis
    proof (cases "ke_toml e (readable t) = Some []")
      case empty: True
      then show ?thesis
        using unchanged len True eff
        by (simp add: handle_filters_def prep editor rd r put_out_def put_line_def Let_def)
    next
      case some: False
      then show ?thesis
        using w3 len True eff
        by (simp add: handle_filters_def prep editor rd r put_out_def put_line_def Let_def
            del: res_bind_Ok_iff)
    qed
  qed
qed

text \<open>
  C21: The command \<open>filters\<close>, with an editor that leaves the text \<open>t\<close>: it returns; when the text is
  TOML and does not give an empty list of filters, it reports success and stores the text as it can
  be read back (a dash when the text has exactly 4096 bytes or a mebibyte and more, and nothing at
  all when it is empty); otherwise it returns 255 and every setting is as before.
\<close>

theorem filters_command:
  assumes "data_ok (ke_user e) (cl_world s)"
    and "\<not> deny (cl_world s) (path_filters_tmp (ke_user e))"
    and "10 \<le> length (editor_command e)"
    and "ke_system e (editor_command e) = write_file (path_filters_tmp (ke_user e)) t"
  shows "\<exists>r s'. main e [argv0, ''filters''] s = Returns r s' \<and> data_ok (ke_user e) (cl_world s') \<and>
    (if ke_toml_ok e t \<and> ke_toml e (readable t) \<noteq> Some [] then
       r = 0 \<and> view (ke_user e) (cl_world s') =
         res_map (abs_update (SetFilters (readable t))) (view (ke_user e) (cl_world s))
     else r = 255 \<and> view (ke_user e) (cl_world s') = view (ke_user e) (cl_world s))"
proof -
  let ?s = "(ensure_locale e s)\<lparr>cl_debug := cl_debug s\<rparr>"
  have w: "cl_world ?s = cl_world s"
    by (simp add: ensure_locale_def)
  have "main e [argv0, ''filters''] s = handle_filters e ?s"
    by (simp add: main_def Let_def ensure_locale_def)
  then show ?thesis using handle_filters_spec [of e ?s t] assms unfolding w by presburger
qed

lemma filters_command_witness:
  "\<exists>e :: string cenv. \<exists>s s'. main e [''tgfocus'', ''filters''] s = Returns 0 s' \<and>
     get_filters (ke_user e) (cl_world s) = Ok [] \<and> get_filters (ke_user e) (cl_world s') = Ok ''[[focus-filter]]''"
proof -
  let ?u = "\<lparr>lck_droot = None, lck_filters = Some ''l'', data_root_majv = ''/h''\<rparr>"
  let ?w = "\<lparr>files = (\<lambda>_. Some []), dirs = {}, deny = (\<lambda>_. False), flock_ok = True, held = {}\<rparr>"
  let ?t = "''[[focus-filter]]''"
  let ?n = "\<lparr>ne_socket = -1, ne_connect = -1, ne_send = 0, ne_recv = None, ne_reads = [], ne_junk = 0\<rparr>"
  let ?e = "\<lparr>ke_user = ?u, ke_avail = (\<lambda>_. True), ke_ndebug = True, ke_net = ?n, ke_net2 = ?n,
      ke_signal_ok = True, ke_fork = 0, ke_remove = (\<lambda>p w. (True, remove_all p w)),
      ke_editor = Some ''/usr/bin/vi'', ke_exists = (\<lambda>_. True),
      ke_system = (\<lambda>_. write_file (path_filters_tmp ?u) ?t), ke_toml_ok = (\<lambda>_. True),
      ke_toml = (\<lambda>_. Some [[]]), ke_eng = \<lparr>regcomp = (\<lambda>p. (0, p)), regexec = (\<lambda>_ _. 0), regerror = (\<lambda>_. [])\<rparr>, ke_i0 = 0, ke_bkt = prime_buckets, ke_is_auth0 = False, ke_input = [],
      ke_login = [], ke_close = []\<rparr> :: string cenv"
  let ?s = "\<lparr>cl_world = ?w, cl_loc = \<lparr>host_lang = 0, prefer_lang = 0, proc_locale = []\<rparr>,
      cl_debug = False, cl_out = []\<rparr>"
  have ok: "data_ok ?u ?w" by (simp add: data_ok_def data_paths_def)
  have "10 \<le> length (editor_command ?e)" by (simp add: editor_command_def)
  then obtain s' where s': "main ?e [''tgfocus'', ''filters''] ?s = Returns 0 s'"
    "view ?u (cl_world s') = res_map (abs_update (SetFilters ?t)) (view ?u ?w)"
    using filters_command [of ?e ?s ?t "''tgfocus''"] ok by auto
  have "get_filters ?u (cl_world s') = Ok ?t" "get_filters ?u ?w = Ok []"
    using s'(2) view_eq [OF ok] filters_file.get_rd [of ?w ?u] by (auto simp: view_def)
  with s'(1) show ?thesis by (intro exI [of _ ?e] exI [of _ ?s] exI [of _ s']) simp
qed

section \<open>Which command runs\<close>

text \<open>
  Options are skipped, so the command is the last other argument: \<open>lang\<close> is only reached when it is
  itself in the place of the language code or an option is, and the three spellings of \<open>version\<close>
  that start with a dash never are.
\<close>

lemma scan_args_fst:
  "fst (scan_args as (c, b)) = (case filter (\<lambda>a. a = [] \<or> hd a \<noteq> CHR ''-'') as of [] \<Rightarrow> c | l \<Rightarrow> last l)"
  by (induction as arbitrary: c b) (auto split: list.splits)

lemma lang_command_dead:
  assumes "length argv = 3" and "fst (scan_args (drop 1 argv) ([], b)) = ''lang''"
  shows "lang_from_cstr (argv ! 2) = lang_unknown"
proof -
  obtain p x y where argv: "argv = [p, x, y]"
    using assms(1) by (auto simp: eval_nat_numeral length_Suc_conv)
  have "y = ''lang'' \<or> (\<exists>z. y = CHR ''-'' # z)"
    using assms(2) by (cases y) (auto simp: argv scan_args_fst split: if_splits)
  then show ?thesis
    by (auto simp: argv lang_from_cstr_def STRNAME_en_HK_def STRNAME_en_US_def STRNAME_en_ZW_def
        STRNAME_zh_CN_def STRNAME_zh_HK_def)
qed

lemma subcmd_not_dashed: "hd (fst (scan_args as ([], b))) = CHR ''-'' \<Longrightarrow> fst (scan_args as ([], b)) = []"
proof -
  assume h: "hd (fst (scan_args as ([], b))) = CHR ''-''"
  let ?l = "filter (\<lambda>a. a = [] \<or> hd a \<noteq> CHR ''-'') as"
  show ?thesis
  proof (cases "?l = []")
    case True
    then show ?thesis by (simp add: scan_args_fst)
  next
    case False
    then have "last ?l \<in> set ?l" by (rule last_in_set)
    then have "last ?l = [] \<or> hd (last ?l) \<noteq> CHR ''-''" by simp
    moreover have "fst (scan_args as ([], b)) = last ?l"
      using False by (simp add: scan_args_fst split: list.split)
    ultimately show ?thesis using h by simp
  qed
qed

end
