(* ===== verification/Spec2Isabelle.thy ===== *)
theory Spec2Isabelle
  imports Common Decor FilterStore UserData Log Ipc IpcNet ChatCmd Progress TdAuth Descriptors Cli
begin

text \<open>
  A verification development of tg-focus, the program that reads all messages of a Telegram account
  and forwards those that pass the user's focus filters into one chat.

  Parts and how they interact. The program \<open>tgfocus\<close> (\<open>src/src/tgfocus.cc\<close>) runs one command: it
  logs in (\<open>td_auth.cc\<close>), edits the filters, or starts and controls a daemon through a socket
  (\<open>ipc_client.cc\<close>, \<open>ipc_server.cc\<close>, \<open>ipc_msg.cc\<close>, \<open>ipc_msg_queue.cc\<close>). In the daemon a listener,
  connection handlers, a dequeuer and two initers (\<open>worker/\<close>) start and stop each other through
  flags (\<open>stat.cc\<close>). The collector's initer runs three workers around the collector (\<open>td_coll.cc\<close>):
  the producer fetches updates of Telegram into a queue, the consumer sends those that a filter
  group (\<open>filter.hh\<close>, over \<open>posix_regex.cc\<close>) accepts, decorated (\<open>tg_msg.cc\<close>, \<open>utfutils.cc\<close>), and
  the switcher tells the consumer when to work. Messages in the program's own chat that start with a
  command word are commands (\<open>chatcmd.cc\<close>) and edit the filters or pause the forwarding. Settings
  are files of a data directory (\<open>user_data.cc\<close>), languages follow the host's locales
  (\<open>locale_conf.cc\<close>), and everything logs (\<open>log.cc\<close>).

  Theories, in the order of their imports, with the sources they model under \<open>src/src\<close>.
  \<^item> \<open>Prelude\<close>: the results \<open>Ok\<close> and \<open>Undef\<close> (undefined behaviour or an uncaught exception),
    integer aliases of \<open>std_comp.hh\<close>, the interface \<open>measured_ops\<close>. \<open>Strops\<close>: strings as lists
    of bytes, finding and printing. \<open>Buffers\<close>, \<open>Codec\<close>: the interfaces of message buffers and of
    integers as bytes, with the byte loops of \<open>user_data.cc\<close> and \<open>ipc_msg.cc\<close> as instances.
  \<^item> \<open>Common\<close> (\<open>common.hh\<close>), \<open>Regex\<close> (\<open>posix_regex.cc\<close>), \<open>LocaleConf\<close> (\<open>locale_conf.hh\<close>,
    \<open>locale_conf.cc\<close>), \<open>Utf\<close> (\<open>utfutils.cc\<close>), \<open>TgMsg\<close> and \<open>Decor\<close> (\<open>tg_msg.cc\<close>).
  \<^item> \<open>Filters\<close> (\<open>filter.hh\<close>): filters, groups, matching and editing; \<open>FilterStore\<close>
    (\<open>filter.cc\<close>): reading and writing them as TOML.
  \<^item> \<open>UserData\<close> (\<open>user_data.cc\<close>): the data directory over a file system with permissions and
    locks (record \<open>world\<close>); \<open>Log\<close> (\<open>log.cc\<close>).
  \<^item> \<open>Ipc\<close> (\<open>errcode.hh\<close>, \<open>ipc_msg.cc\<close>, \<open>ipc_msg_queue.cc\<close>) and \<open>IpcNet\<close>
    (\<open>ipc_client.cc\<close>, \<open>ipc_server.cc\<close>).
  \<^item> \<open>ChatCmd\<close> (\<open>chatcmd.cc\<close>): one definition per handler, over the record \<open>cstate\<close>.
  \<^item> \<open>TdColl\<close> (\<open>td_coll.cc\<close>, \<open>td_comp.cc\<close>): the collector with its tables, requests and
    callbacks (record \<open>TdCollector\<close>, inside the daemon's state \<open>gstate\<close>), one call after the
    other; \<open>call_step\<close> is a send access by access, for calls of two workers that overlap.
  \<^item> \<open>Pipeline\<close> (\<open>worker/coll_producer.cc\<close>, \<open>coll_consumer.cc\<close>, \<open>coll_switcher.cc\<close>): the three
    loops as program counters over a shared state; the text at its start says what one step is.
    \<open>Progress\<close>: what arriving messages put into the queue, and that it can always be emptied.
  \<^item> \<open>TdAuth\<close> (\<open>td_auth.cc\<close>): the login, over the answers of the library and the typed input.
  \<^item> \<open>Daemon\<close> (\<open>worker/ipc_conn_handler.cc\<close>, \<open>conn_listener.cc\<close>, \<open>ipc_msg_dequer.cc\<close>,
    \<open>ipc_server_initer.cc\<close>, \<open>coll_initer.cc\<close>): every worker is the list of instructions it has
    left; a schedule says which worker takes each step. \<open>DaemonInv\<close>: a type discipline for
    these lists (which role raises which flag), kept by every step, and what follows from it.
    \<open>Descriptors\<close>: who may use and close a connection.
  \<^item> \<open>Cli\<close> (\<open>tgfocus.cc\<close>): every command and \<open>main\<close>; \<open>run_end\<close> says how it ends.
  \<^item> This theory: properties that span components, from arriving messages to what is forwarded,
    from an edit to what is forwarded, from the daemon's status to what the command prints.

  What the lemmas show. Filters: the full decision table, first-match semantics of a group, edits as
  operations on pattern tables that stay inside the vectors, and the round trip through TOML.
  Commands: they never run into undefined behaviour and change nothing when they fail, and a
  well-formed edit reaches the disk and the next load. Data directory: its getters and setters
  implement a record of settings. Text: the UTF-16 conversion is the encoding of the text and stays
  inside its buffers, decorated ranges lie inside the text. Collector: request numbers are fresh
  unless two sends overlap, and what happens then; replies do not answer each other for ever, intake
  skips the program's own chat. Workers: the handshake invariant in every interleaving, the one
  round that a late pause lets through, one round of the consumer as a function, and that no wake-up
  is lost outside a shutdown. Login: what is stored in the end, and when the table of callbacks may
  move under an iterator. Daemon: which role raises and lowers which flag, in every interleaving,
  that the dequeuer ends once it is asked to, and that a connection is closed at most once and not
  written to afterwards. IPC: parsing, round trip, set-up errors. Several properties state behaviour
  that looks unintended (a shutdown that can hang, a start that is acknowledged and lost, a command
  that is acknowledged because it came in two parts); their texts say so.

  Bounds and fuel. Loops are structural recursions on the input they consume, so no fuel is needed;
  where the code waits for more input than there is, the result is \<open>None\<close>, and theorems that a call
  returns say so. Machine integers are words of their width; sizes of vectors are natural numbers,
  assumed below two to the 32 where the code stores them in 32 bits.

  Code outside the repository is a parameter: the POSIX regular-expression engine (record \<open>engine\<close>),
  the TOML library (a function from text to tables; \<open>toml_conforms\<close> states that it reads the
  fragment the program writes, and a reference reader satisfies it), the time zone, the locales of
  the host, how the standard library lets a hash table grow (\<open>bucket_law\<close>), the objects and answers
  of TDLib, the results of system calls, the editor.

  Not modelled. Overlapping calls of the collector beyond the numbering of requests (the tables are
  shared by producer and consumer without a lock, which C++ leaves undefined; in \<open>Pipeline\<close> a
  response and a forwarded message are handled in one step each). Calls to the logger inside the
  other components, standard error and prompts; sleeping, time-outs as time, and the memory order of
  atomics (steps are sequentially consistent); partial writes and nested directories; threads that
  cannot be started; the process image after \<open>fork\<close> (the daemon starts from the state given to it)
  and the end of the daemon's process when its main thread returns; producer, consumer and switcher
  inside \<open>Daemon\<close> beyond the way they stop; the options of link previews; casts, which change a type
  only, and the assertion macro, which nothing uses; the build files, tests and documents.
\<close>

section \<open>From the account to the focus chat\<close>

text \<open>
  C3: From the account to the focus chat. When messages of other chats arrive while the consumer is
  about to take the queue, which is empty, its round sends one message for each of them that the
  stored filters accept and that does not come from the program's own chat, with the title, sender
  and text that the tables give, the newest first, numbered on from the count; and nothing else.
\<close>

theorem messages_end_to_end:
  assumes "load_group (co_cmd e) (g_world (p_g s)) = Ok fg"
    and "get_tgfid (ce_user (co_cmd e)) (g_world (p_g s)) = Ok i" and "i \<noteq> -1"
    and "ms \<noteq> []" and "\<forall>m\<in>set ms. msg_chat_id m \<noteq> i"
    and "p_cpc s = CLock" and "\<not> p_locked s" and "\<not> sd_cons s" and "g_mq (p_g s) = []"
  shows "\<exists>g' s'. run_ops (\<lambda>m. process_update e (updateNewMessage m)) ms (p_g s) = Ok g' \<and>
    consumer_iter e (length ms + 2) (s\<lparr>p_g := g'\<rparr>) = Some (Ok s') \<and>
    g_mq (p_g s') = [] \<and> \<not> p_locked s' \<and>
    map snd (c_sent (g_coll (p_g s'))) = map snd (c_sent (g_coll (p_g s))) @
      forwards e i (number_from (p_cnt s) (accepted e fg (rev (taken (co_tz e) ms (g_coll (p_g s))))))"
proof -
  obtain g' where g': "run_ops (\<lambda>m. process_update e (updateNewMessage m)) ms (p_g s) = Ok g'"
    "g_cmd g' = g_cmd (p_g s)" "c_sent (g_coll g') = c_sent (g_coll (p_g s))"
    "g_mq g' = rev (taken (co_tz e) ms (g_coll (p_g s)))"
    using intake_all [OF assms(2,5)] assms(9) by auto
  let ?q = "rev (taken (co_tz e) ms (g_coll (p_g s)))"
  let ?s = "s\<lparr>p_g := g', p_locked := True, p_cpc := CRun ?q\<rparr>"
  have step: "consumer_step e (s\<lparr>p_g := g'\<rparr>) = Some (Ok ?s)"
    using assms(4,6,7,3) g'(2,4) tgfid_valid [OF assms(2)]
    by (simp add: consumer_step_def length_greater_0_conv [symmetric] del: length_greater_0_conv)
  have "load_group (co_cmd e) (g_world (p_g ?s)) = Ok fg" "get_tgfid (ce_user (co_cmd e)) (g_world (p_g ?s)) = Ok i"
    "p_cpc ?s = CRun ?q" "\<not> sd_cons ?s"
    using assms(1,2,8) g'(2) by simp_all
  from consumer_iter_run [OF this] obtain s' where s': "consumer_iter e (Suc (length ?q)) ?s = Some (Ok s')"
    "\<not> p_locked s'" "g_mq (p_g s') = []"
    "map snd (c_sent (g_coll (p_g s'))) = map snd (c_sent (g_coll (p_g ?s))) @
       forwards e i (number_from (p_cnt ?s) (accepted e fg ?q))" by metis
  have "length ms + 2 = Suc (Suc (length ?q))" by simp
  then have "consumer_iter e (length ms + 2) (s\<lparr>p_g := g'\<rparr>) = Some (Ok s')"
    using step s'(1) by (simp only: consumer_iter.simps option.case res.case)
  with g'(1,3) s'(2-4) show ?thesis by auto
qed

lemma messages_end_to_end_witness:
  "\<exists>s ms g' s' t. length ms = 1 \<and>
     run_ops (\<lambda>m. process_update demo_coll_env (updateNewMessage m)) ms (p_g s) = Ok g' \<and>
     consumer_iter demo_coll_env 3 (s\<lparr>p_g := g'\<rparr>) = Some (Ok s') \<and>
     map snd (c_sent (g_coll (p_g s'))) = [sendMessage 0 t []]"
proof -
  let ?m = "\<lparr>msg_chat_id = 7, msg_sender_id = messageSenderChat 7, msg_content = messageText ''x'', msg_date = 0\<rparr>"
  let ?s = "start_workers demo_gstate\<lparr>p_cpc := CLock\<rparr>"
  let ?fg = "\<lparr>i_prev_visited = 0, filters = [empty_filter]\<rparr> :: string FilterGroup"
  have pg: "p_g ?s = demo_gstate" "p_cpc ?s = CLock" "\<not> p_locked ?s" "\<not> sd_cons ?s"
    "g_mq demo_gstate = []" "c_sent (g_coll demo_gstate) = []" "p_cnt ?s = 0"
    by (simp_all add: start_workers_def demo_gstate_def new_TdCollector_def)
  have fg: "load_group (co_cmd demo_coll_env) (g_world demo_gstate) = Ok ?fg"
    using demo_facts(2) by (simp add: demo_coll_env_def demo_gstate_def demo_cstate_def)
  obtain t where t: "rev (taken (co_tz demo_coll_env) [?m] (g_coll demo_gstate)) = [t]" "\<not> is_from_tgfocus t"
    by (auto simp: title_entry_def demo_gstate_def new_TdCollector_def is_from_tgfocus_def new_TgMsg_def)
  then have acc: "accepted demo_coll_env ?fg [t] = [t]"
    by (simp add: accepted_def group_mtch_tgmsg_def mtch_loop_spec empty_filter_accepts)
  have "\<exists>g' s'. run_ops (\<lambda>m. process_update demo_coll_env (updateNewMessage m)) [?m] (p_g ?s) = Ok g' \<and>
    consumer_iter demo_coll_env (length [?m] + 2) (?s\<lparr>p_g := g'\<rparr>) = Some (Ok s') \<and>
    g_mq (p_g s') = [] \<and> \<not> p_locked s' \<and>
    map snd (c_sent (g_coll (p_g s'))) = map snd (c_sent (g_coll (p_g ?s))) @
      forwards demo_coll_env 0 (number_from (p_cnt ?s) (accepted demo_coll_env ?fg
        (rev (taken (co_tz demo_coll_env) [?m] (g_coll (p_g ?s))))))"
    by (rule messages_end_to_end) (use fg demo_tgfid pg in \<open>simp_all only: pg, simp_all\<close>)
  then obtain g' s' where r: "run_ops (\<lambda>m. process_update demo_coll_env (updateNewMessage m)) [?m] (p_g ?s) = Ok g'"
    "consumer_iter demo_coll_env (length [?m] + 2) (?s\<lparr>p_g := g'\<rparr>) = Some (Ok s')"
    "map snd (c_sent (g_coll (p_g s'))) = forwards demo_coll_env 0 (number_from 0 [t])"
    unfolding pg t(1) acc by auto
  have three: "length [?m] + 2 = 3" by simp
  have "map snd (c_sent (g_coll (p_g s'))) = [sendMessage 0 (to_locale_string (co_lang demo_coll_env) (set_id 1 t)) []]"
    using r(3) by (simp add: forwards_def)
  with r(1,2) show ?thesis
    unfolding three by (intro exI [of _ ?s] exI [of _ "[?m]"] exI [of _ g'] exI [of _ s'] exI conjI) auto
qed

section \<open>From a command to what is forwarded\<close>

lemma view_tgfid: "view u w = Ok v \<Longrightarrow> get_tgfid u w = Ok (s_tgfid v)"
  by (auto simp: view_def)

lemma accepted_cong: "filters fg = filters fg' \<Longrightarrow> accepted e fg ms = accepted e fg' ms"
  by (simp add: accepted_def group_mtch_tgmsg_def case_prod_beta)

text \<open>
  C4: An edit in the chat takes effect on what is forwarded. After a well-formed filter.edit command
  the next round of the consumer sends exactly the queued messages that a group accepts whose tables
  are those of the abstract edit (unless the stored text has a size the reader rejects), newest
  first, and to the same chat as before.
\<close>

theorem edit_takes_effect:
  assumes "c = g_cmd (p_g s)" and "ce = co_cmd e"
    and "data_ok (ce_user ce) (cs_world c)" and "toml_conforms (ce_toml ce)"
    and "load_group ce (cs_world c) = Ok g" and "group_storable (ce_eng ce) g"
    and "filters g \<noteq> []" and "length (filters g) < 2 ^ 32"
    and "chunk_word w" and "atoi (c_str w) \<noteq> 0" and "storable v"
    and "is_pattern_accept (regex_of (ce_eng ce) v)"
    and "get_tgfid (ce_user ce) (cs_world c) = Ok i"
    and "p_cpc s = CRun ms" and "\<not> sd_cons s"
  shows "\<exists>h c' g'.
    new_ChatCmdHandler ce ChatCmdEditFilter (edit_command ad w p v) c = Ok (h, c') \<and> cmd_done h \<and>
    pats g' = abs_edit (\<lambda>v. is_pattern_accept (regex_of (ce_eng ce) v))
      ((if ad then EdAdd else EdDel) (atoi (c_str w)) p v) (pats g) \<and>
    (unreadable_size (length (as_fsdata g')) \<or>
     (\<exists>s'. consumer_iter e (Suc (length ms)) (s\<lparr>p_g := (p_g s)\<lparr>g_cmd := c'\<rparr>\<rparr>) = Some (Ok s') \<and>
        map snd (c_sent (g_coll (p_g s'))) = map snd (c_sent (g_coll (p_g s))) @
          forwards e i (number_from (p_cnt s) (accepted e g' ms))))"
proof -
  obtain h w' g' where run: "new_ChatCmdHandler ce ChatCmdEditFilter (edit_command ad w p v) c =
      Ok (h, c\<lparr>cs_world := w'\<rparr>)" "cmd_done h"
    and tables: "pats g' = abs_edit (\<lambda>v. is_pattern_accept (regex_of (ce_eng ce) v))
      ((if ad then EdAdd else EdDel) (atoi (c_str w)) p v) (pats g)"
    and reload: "unreadable_size (length (as_fsdata g')) \<or> res_map filters (load_group ce w') = Ok (filters g')"
    and vw: "view (ce_user ce) w' = res_map (abs_update (SetFilters (as_fsdata g'))) (view (ce_user ce) (cs_world c))"
    using edit_command_run [OF assms(3-12)] by blast
  obtain v0 where v0: "view (ce_user ce) (cs_world c) = Ok v0" using view_eq [OF assms(3)] by blast
  have "get_tgfid (ce_user ce) w' = Ok (s_tgfid v0)"
    using view_tgfid [of "ce_user ce" w'] vw v0 by simp
  then have tgfid: "get_tgfid (ce_user ce) w' = Ok i" using view_tgfid [OF v0] assms(13) by simp
  let ?s = "s\<lparr>p_g := (p_g s)\<lparr>g_cmd := c\<lparr>cs_world := w'\<rparr>\<rparr>\<rparr>"
  have round: "unreadable_size (length (as_fsdata g')) \<or>
      (\<exists>s'. consumer_iter e (Suc (length ms)) ?s = Some (Ok s') \<and>
        map snd (c_sent (g_coll (p_g s'))) = map snd (c_sent (g_coll (p_g s))) @
          forwards e i (number_from (p_cnt s) (accepted e g' ms)))"
  proof (cases "unreadable_size (length (as_fsdata g'))")
    case False
    then obtain fg where fg: "load_group ce w' = Ok fg" "filters fg = filters g'"
      using reload by auto
    have "load_group (co_cmd e) (g_world (p_g ?s)) = Ok fg"
      "get_tgfid (ce_user (co_cmd e)) (g_world (p_g ?s)) = Ok i" "p_cpc ?s = CRun ms" "\<not> sd_cons ?s"
      using fg(1) tgfid assms(2,14,15) by simp_all
    from consumer_iter_run [OF this] show ?thesis
      by (auto simp: accepted_cong [OF fg(2)])
  qed simp
  with run tables show ?thesis by blast
qed

lemma edit_takes_effect_witness:
  "\<exists>s ms h c' (g' :: string FilterGroup).
     new_ChatCmdHandler demo_env ChatCmdEditFilter ''filter.edit 1 titles add \"a b\"'' (g_cmd (p_g s)) = Ok (h, c') \<and>
     length ms = 1 \<and> p_cpc s = CRun ms \<and> pats g' = [(\<lambda>_. [])(FilterPropertyTitles := [''a b''])] \<and>
     (unreadable_size (length (as_fsdata g')) \<or>
      (\<exists>s'. consumer_iter demo_coll_env 2 (s\<lparr>p_g := (p_g s)\<lparr>g_cmd := c'\<rparr>\<rparr>) = Some (Ok s')))"
proof -
  let ?g = "\<lparr>i_prev_visited = 0, filters = [empty_filter]\<rparr> :: string FilterGroup"
  let ?ms = "[\<lparr>m_title = ''t'', m_sender = ''s'', m_txt = ''x'', m_tstamp = [], m_id = 0\<rparr>]"
  let ?s = "start_workers demo_gstate\<lparr>p_locked := True, p_cpc := CRun ?ms\<rparr>"
  let ?ws = "''1''" and ?v = "''a b''"
  have n: "atoi (c_str ''1'') = 1"
    by (simp add: atoi_def c_str_def strtol10_def is_space_def is_digit_def digit_of_def clamp_long_def)
  have ipt: "edit_command True ''1'' FilterPropertyTitles ''a b'' = ''filter.edit 1 titles add \"a b\"''"
    by (simp add: edit_command_def CHATCMD_EDITF_def)
  have c: "g_cmd (p_g ?s) = demo_cstate" "cs_world demo_cstate = blank_world" "co_cmd demo_coll_env = demo_env"
    by (simp_all add: start_workers_def demo_gstate_def demo_cstate_def demo_coll_env_def)
  have acc: "is_pattern_accept (regex_of (ce_eng demo_env) ''a b'')"
    by (simp add: is_pattern_accept_def regex_of_def demo_env_def)
  then have tables: "abs_edit (\<lambda>v. is_pattern_accept (regex_of (ce_eng demo_env) v))
      ((if True then EdAdd else EdDel) 1 FilterPropertyTitles ''a b'') (pats ?g) =
      [(\<lambda>_. [])(FilterPropertyTitles := [''a b''])]"
    by (simp add: pats_def abs_add_def Let_def)
  have side: "toml_conforms (ce_toml demo_env)" "group_storable (ce_eng demo_env) ?g" "filters ?g \<noteq> []"
    "length (filters ?g) < 2 ^ 32" "chunk_word ?ws" "atoi (c_str ?ws) \<noteq> 0" "storable ?v"
    unfolding n
    by (simp_all add: demo_env_def toml_read_conforms group_storable_def filter_regexes_def
        empty_filter_def chunk_word_def storable_def plain_char_def bytes_of_def utf8_valid_ascii)
  have tgfid: "get_tgfid (ce_user demo_env) (cs_world demo_cstate) = Ok 0"
    using demo_tgfid by (simp add: demo_coll_env_def demo_gstate_def)
  have st: "p_cpc ?s = CRun ?ms" "\<not> sd_cons ?s" by (simp_all add: start_workers_def)
  have w: "data_ok (ce_user demo_env) (cs_world demo_cstate)" "load_group demo_env (cs_world demo_cstate) = Ok ?g"
    using demo_facts by (simp_all only: c)
  have two: "Suc (length ?ms) = 2" by simp
  from edit_takes_effect [OF c(1) [symmetric] c(3) [symmetric] w(1) side(1) w(2) side(2-7) acc tgfid st,
      of True FilterPropertyTitles]
  show ?thesis
    unfolding n ipt tables two
    by (intro exI [of _ ?s] exI [of _ ?ms]) (use c(1) st(1) in \<open>simp only: list.size\<close>, simp, blast)
qed

section \<open>The status command\<close>

lemma char_of_byte_of_char: "char_of_byte (byte_of_char c) = c"
proof -
  have "(of_char c :: u8) = of_nat (of_char c)" by (simp add: of_nat_of_char)
  moreover have "(of_char c :: nat) < 2 ^ LENGTH(8)" by simp
  ultimately have "unat (of_char c :: u8) = of_char c"
    by (simp add: unsigned_of_nat take_bit_nat_eq_self_iff)
  then show ?thesis by (simp add: char_of_byte_def byte_of_char_def)
qed

text \<open>
  C20: The status report, end to end: what the daemon sends for a status request, delivered to the
  client frame and text in one read each, makes the command print exactly the text the daemon wrote;
  its exit status is 1 all the same.
\<close>

theorem status_end_to_end:
  assumes "get_auth_hint (de_user de) (g_world (d_g d)) = Ok auth"
    and "get_pref_lang (de_user de) (g_world (d_g d)) = Ok l"
    and "txt = status_text auth (flag_on coll_initer_up d) (cs_pause (g_cmd (d_g d))) (g_msg_coll (d_g d))
           (g_msg_total (d_g d)) (length (g_mq (d_g d))) (host_lang (d_loc d))"
    and "length txt < 2 ^ 32"
    and "0 \<le> ne_socket n" and "ne_connect n \<noteq> -1" and "ne_send n \<noteq> -1"
  shows "\<exists>frame body. rhandle_rstatus de fd d = Ok [Send fd frame, Send fd body] \<and>
           handle_rstatus (n\<lparr>ne_recv := Some frame, ne_reads := [Some body]\<rparr>) s = Returns 1 (put_out txt s)"
proof -
  let ?bytes = "map byte_of_char txt"
  have len: "length zero_args = 55" by (simp add: zero_args_def nbyte_defs)
  let ?m = "\<lparr>im_type = IpcMsg_SuccessReadable, im_data = [0x74, 0x67, 0x66] @ be16 IpcMsg_SuccessReadable @
      be32 (word_of_nat (length txt)) @ zero_args, im_data_len = 64,
      im_extargs_len = word_of_nat (length txt), im_extargs = None, im_is_parsed = True\<rparr> :: IpcMsg"
  have m: "new_ipcmsg_successr ?bytes = Inr ?m"
    using new_ipcmsg_Inr [OF len] by (simp add: new_ipcmsg_successr_def)
  have n: "unat (word_of_nat (length txt) :: u32) = length txt"
    using assms(4) by (simp add: unsigned_of_nat take_bit_nat_eq_self_iff)
  have ne: "txt \<noteq> []" by (simp add: assms(3) status_text_def)
  obtain t1 t2 where t: "be16 IpcMsg_SuccessReadable = [t1, t2]" by (simp add: be16_def)
  obtain e1 e2 e3 e4 where e: "be32 (word_of_nat (length txt)) = [e1, e2, e3, e4]" by (simp add: be32_def)
  have dec: "be_read 0 [t1, t2] = IpcMsg_SuccessReadable"
    "be_read 0 [e1, e2, e3, e4] = (word_of_nat (length txt) :: u32)"
    using be16.dec_enc [of IpcMsg_SuccessReadable] be32.dec_enc [of "word_of_nat (length txt)"]
    by (simp_all only: t e)
  have parse: "new_IpcMsg (ne_junk n) (im_data ?m) = ?m"
    using parse_frame [OF len, of "ne_junk n" "0x74" "0x67" "0x66" t1 t2 e1 e2 e3 e4]
    by (simp add: t e dec del: be_read.simps)
  have data: "ipcmsg_data ?m = im_data ?m" "length (im_data ?m) = 64"
    using len by (simp_all add: ipcmsg_data_def t e)
  have server: "rhandle_rstatus de fd d = Ok [Send fd (im_data ?m), Send fd ?bytes]"
    using assms(1,2) m data n by (simp add: rhandle_rstatus_def Let_def assms(3) [symmetric])
  have client: "fst (new_IpcClient (ne_socket n) (ne_connect n)) = \<lparr>csock = ne_socket n, c_ec = EC_NOERR\<rparr>"
    using assms(5,6) by (simp add: new_IpcClient_def creat_in_client_def)
  have "length (map byte_of_char ''auth:?'' @ drop (length (map byte_of_char ''auth:?'')) zero_args) = 55"
    using len by simp
  from new_ipcmsg_Inr [OF this] obtain msg where msg: "new_ipcmsg_rstatus = Inr msg" "well_formed msg"
    by (auto simp: new_ipcmsg_rstatus_def new_ipcmsg0_def well_formed_def Let_def)
  have ext: "read_extargs (length txt) 0 (replicate (length txt) 0) [Some ?bytes] = Some (Some ?bytes)"
    using ne by simp
  have "fst (send_ipcmsg_sync (ne_junk n) (ne_send n) (Some (im_data ?m)) [Some ?bytes] msg
      \<lparr>csock = ne_socket n, c_ec = EC_NOERR\<rparr>) = Reply (set_extargs ?bytes ?m)"
    using assms(7) msg(2) data(2) parse n ne ext
    by (simp add: send_ipcmsg_sync_def Let_def well_formed_def nbyte_defs)
  then have "handle_rstatus (n\<lparr>ne_recv := Some (im_data ?m), ne_reads := [Some ?bytes]\<rparr>) s =
      Returns 1 (put_out txt s)"
    by (simp add: handle_rstatus_def client_call_def client msg(1) good_client_or_report_def ec_defs
        Let_def set_extargs_def char_of_byte_of_char comp_def)
  with server show ?thesis by blast
qed

lemma status_witness:
  "\<exists>de d n s txt frame body. rhandle_rstatus de 5 d = Ok [Send 5 frame, Send 5 body] \<and>
     handle_rstatus (n\<lparr>ne_recv := Some frame, ne_reads := [Some body]\<rparr>) s = Returns 1 (put_out txt s) \<and>
     prefix ''       Logged in : NO'' txt"
proof -
  let ?u = "ce_user demo_env"
  let ?de = "\<lparr>de_user = ?u, de_avail = (\<lambda>_. True), de_junk = 0, de_junkbuf = replicate 64 0\<rparr>"
  let ?d = "start_daemon True [] demo_gstate \<lparr>host_lang = en_US, prefer_lang = en_US, proc_locale = []\<rparr> []
    (\<lambda>_. \<lparr>cn_epoll = -1, cn_ctl = -1, cn_events = []\<rparr>)"
  let ?n = "\<lparr>ne_socket = 3, ne_connect = 0, ne_send = 64, ne_recv = None, ne_reads = [], ne_junk = 0\<rparr>"
  let ?txt = "status_text False False False 0 0 0 en_US"
  have w: "g_world (d_g ?d) = blank_world"
    by (simp add: start_daemon_def demo_gstate_def demo_cstate_def)
  have auth: "get_auth_hint ?u (g_world (d_g ?d)) = Ok False"
    unfolding w by (simp add: auth_hint.get_rd blank_world_def)
  obtain l where lang: "get_pref_lang ?u (g_world (d_g ?d)) = Ok l"
    unfolding w by (simp add: pref_lang.get_rd blank_world_def)
  have report: "?txt = status_text False (flag_on coll_initer_up ?d) (cs_pause (g_cmd (d_g ?d)))
      (g_msg_coll (d_g ?d)) (g_msg_total (d_g ?d)) (length (g_mq (d_g ?d))) (host_lang (d_loc ?d))"
    by (simp add: start_daemon_def demo_gstate_def demo_cstate_def flag_on_def)
  have len: "length ?txt < 2 ^ 32"
    by (simp add: status_text_def lang_to_cstr_def lang_defs strname_defs show_nat.simps)
  have pre: "prefix ''       Logged in : NO'' ?txt"
    by (simp add: status_text_def)
  have "0 \<le> ne_socket ?n" "ne_connect ?n \<noteq> -1" "ne_send ?n \<noteq> -1" by simp_all
  from status_end_to_end [of ?de ?d False l ?txt ?n 5, OF _ _ report len this] auth lang pre
  show ?thesis by (simp only: denv.simps) blast
qed

end
